theory Spec2Isabelle
  imports Main "HOL-Library.AList" "HOL-Library.Sublist" "HOL-Library.Word"
begin

section \<open>Encryption layer\<close>

text \<open>
  A JavaScript string is a sequence of 16-bit code units, a \<^verbatim>\<open>Buffer\<close> a sequence of bytes.
  What the layer takes from Node is modelled here from Node's documented behaviour: the
  \<^verbatim>\<open>hex\<close> and \<^verbatim>\<open>utf-8\<close> codecs of \<^verbatim>\<open>Buffer\<close>, \<^verbatim>\<open>String.prototype.split\<close> and \<^verbatim>\<open>trim\<close>.
  AES-256-GCM itself is a parameter.
\<close>

type_synonym bytes = "8 word list"

type_synonym jsstring = "16 word list"

text \<open>The exceptions that can leave an operation of the two storage modules.\<close>

datatype error = TypeError | InvalidKeyLength | InvalidEncryptedData | CipherError | FsError

subsection \<open>Hex\<close>

text \<open>\<^verbatim>\<open>buf.toString("hex")\<close> writes two lower-case digits per byte. \<^verbatim>\<open>Buffer.from(s, "hex")\<close>
  reads pairs of digits of either case and stops at the first pair that is not two hex
  digits; a trailing single character is dropped.\<close>

definition hexDigit :: "nat \<Rightarrow> 16 word" where
  "hexDigit n = (if n < 10 then of_nat (48 + n) else of_nat (87 + n))"

definition hexEncode :: "bytes \<Rightarrow> jsstring" where
  "hexEncode bs = concat (map (\<lambda>b. [hexDigit (unat b div 16), hexDigit (unat b mod 16)]) bs)"

definition hexValue :: "16 word \<Rightarrow> nat option" where
  "hexValue u =
     (let n = unat u in
      if 48 \<le> n \<and> n \<le> 57 then Some (n - 48)
      else if 97 \<le> n \<and> n \<le> 102 then Some (n - 87)
      else if 65 \<le> n \<and> n \<le> 70 then Some (n - 55)
      else None)"

fun hexDecode :: "jsstring \<Rightarrow> bytes" where
  "hexDecode (h # l # rest) =
     (case hexValue h of
        None \<Rightarrow> []
      | Some a \<Rightarrow> (case hexValue l of
                     None \<Rightarrow> []
                   | Some b \<Rightarrow> of_nat (16 * a + b) # hexDecode rest))"
| "hexDecode rest = []"

subsection \<open>Split and trim\<close>

text \<open>\<^verbatim>\<open>s.split(":")\<close> cuts at every separator, so a string without one gives one part and
  the empty string gives one empty part. \<^verbatim>\<open>s.trim()\<close> removes white space and line
  terminators from both ends.\<close>

fun splitOn :: "'a \<Rightarrow> 'a list \<Rightarrow> 'a list list" where
  "splitOn d [] = [[]]"
| "splitOn d (x # xs) =
     (if x = d then [] # splitOn d xs
      else (case splitOn d xs of p # ps \<Rightarrow> (x # p) # ps | [] \<Rightarrow> [[x]]))"

definition isSpace :: "16 word \<Rightarrow> bool" where
  "isSpace u =
     (let n = unat u in
      (9 \<le> n \<and> n \<le> 13) \<or> n = 32 \<or> n = 160 \<or> n = 5760 \<or> (8192 \<le> n \<and> n \<le> 8202)
      \<or> n = 8232 \<or> n = 8233 \<or> n = 8239 \<or> n = 8287 \<or> n = 12288 \<or> n = 65279)"

definition trim :: "jsstring \<Rightarrow> jsstring" where
  "trim t = rev (dropWhile isSpace (rev (dropWhile isSpace t)))"

subsection \<open>UTF-8\<close>

text \<open>Encoding a string as UTF-8: a high surrogate followed by a low surrogate is one
  supplementary code point of four bytes; a surrogate without its partner is written as
  U+FFFD (\<^verbatim>\<open>EF BF BD\<close>); every other code unit is a code point of one to three bytes.\<close>

definition isHigh :: "16 word \<Rightarrow> bool" where
  "isHigh u \<longleftrightarrow> 0xD800 \<le> unat u \<and> unat u < 0xDC00"

definition isLow :: "16 word \<Rightarrow> bool" where
  "isLow u \<longleftrightarrow> 0xDC00 \<le> unat u \<and> unat u < 0xE000"

definition utf8_of_cp :: "nat \<Rightarrow> bytes" where
  "utf8_of_cp c =
     (if c < 0x80 then [of_nat c]
      else if c < 0x800 then [of_nat (0xC0 + c div 64), of_nat (0x80 + c mod 64)]
      else if c < 0x10000 then
        [of_nat (0xE0 + c div 4096), of_nat (0x80 + c div 64 mod 64), of_nat (0x80 + c mod 64)]
      else [of_nat (0xF0 + c div 262144), of_nat (0x80 + c div 4096 mod 64),
            of_nat (0x80 + c div 64 mod 64), of_nat (0x80 + c mod 64)])"

definition replacement :: bytes where
  "replacement = [0xEF, 0xBF, 0xBD]"

fun utf8_encode :: "jsstring \<Rightarrow> bytes" where
  "utf8_encode [] = []"
| "utf8_encode [u] = (if isHigh u \<or> isLow u then replacement else utf8_of_cp (unat u))"
| "utf8_encode (u # v # rest) =
     (if isHigh u then
        (if isLow v
         then utf8_of_cp (0x10000 + (unat u - 0xD800) * 1024 + (unat v - 0xDC00)) @ utf8_encode rest
         else replacement @ utf8_encode (v # rest))
      else if isLow u then replacement @ utf8_encode (v # rest)
      else utf8_of_cp (unat u) @ utf8_encode (v # rest))"

text \<open>Decoding UTF-8 into a string: a well-formed sequence gives its code point (two code
  units above U+FFFF); at the first byte that cannot continue a sequence the bytes read
  so far give one U+FFFD and decoding resumes at that byte. The second byte of a
  three- or four-byte sequence has the narrowed range that excludes overlong forms,
  surrogates and code points above U+10FFFF.\<close>

definition isCont :: "8 word \<Rightarrow> bool" where
  "isCont b \<longleftrightarrow> 0x80 \<le> unat b \<and> unat b < 0xC0"

definition secondLo :: "nat \<Rightarrow> nat" where
  "secondLo n = (if n = 0xE0 then 0xA0 else if n = 0xF0 then 0x90 else 0x80)"

definition secondHi :: "nat \<Rightarrow> nat" where
  "secondHi n = (if n = 0xED then 0x9F else if n = 0xF4 then 0x8F else 0xBF)"

fun utf8_decode :: "bytes \<Rightarrow> jsstring" where
  "utf8_decode [] = []"
| "utf8_decode (b # bs) =
     (let n = unat b in
      if n < 0x80 then of_nat n # utf8_decode bs
      else if 0xC2 \<le> n \<and> n < 0xE0 then
        (case bs of
           [] \<Rightarrow> [0xFFFD]
         | b1 # r1 \<Rightarrow>
             if \<not> isCont b1 then 0xFFFD # utf8_decode bs
             else of_nat ((n - 0xC0) * 64 + (unat b1 - 0x80)) # utf8_decode r1)
      else if 0xE0 \<le> n \<and> n < 0xF0 then
        (case bs of
           [] \<Rightarrow> [0xFFFD]
         | b1 # r1 \<Rightarrow>
             if \<not> (secondLo n \<le> unat b1 \<and> unat b1 \<le> secondHi n) then 0xFFFD # utf8_decode bs
             else
               (case r1 of
                  [] \<Rightarrow> [0xFFFD]
                | b2 # r2 \<Rightarrow>
                    if \<not> isCont b2 then 0xFFFD # utf8_decode r1
                    else of_nat ((n - 0xE0) * 4096 + (unat b1 - 0x80) * 64 + (unat b2 - 0x80))
                           # utf8_decode r2))
      else if 0xF0 \<le> n \<and> n < 0xF5 then
        (case bs of
           [] \<Rightarrow> [0xFFFD]
         | b1 # r1 \<Rightarrow>
             if \<not> (secondLo n \<le> unat b1 \<and> unat b1 \<le> secondHi n) then 0xFFFD # utf8_decode bs
             else
               (case r1 of
                  [] \<Rightarrow> [0xFFFD]
                | b2 # r2 \<Rightarrow>
                    if \<not> isCont b2 then 0xFFFD # utf8_decode r1
                    else
                      (case r2 of
                         [] \<Rightarrow> [0xFFFD]
                       | b3 # r3 \<Rightarrow>
                           if \<not> isCont b3 then 0xFFFD # utf8_decode r2
                           else
                             (let c = (n - 0xF0) * 262144 + (unat b1 - 0x80) * 4096
                                      + (unat b2 - 0x80) * 64 + (unat b3 - 0x80)
                              in of_nat (0xD800 + (c - 0x10000) div 1024)
                                   # of_nat (0xDC00 + (c - 0x10000) mod 1024)
                                   # utf8_decode r3))))
      else 0xFFFD # utf8_decode bs)"

subsection \<open>The cipher\<close>

text \<open>\<open>encrypt_gcm key iv plain\<close> stands for \<^verbatim>\<open>createCipheriv\<close>, \<^verbatim>\<open>update\<close>, \<^verbatim>\<open>final\<close> and
  \<^verbatim>\<open>getAuthTag\<close> and returns the ciphertext and the tag; \<open>decrypt_gcm key iv tag encrypted\<close>
  stands for \<^verbatim>\<open>createDecipheriv\<close>, \<^verbatim>\<open>setAuthTag\<close>, \<^verbatim>\<open>update\<close> and \<^verbatim>\<open>final\<close>. \<open>None\<close> is
  any exception they throw (a key or nonce of the wrong length, a tag that does not
  verify).\<close>

record cipher =
  encrypt_gcm :: "bytes \<Rightarrow> bytes \<Rightarrow> bytes \<Rightarrow> (bytes \<times> bytes) option"
  decrypt_gcm :: "bytes \<Rightarrow> bytes \<Rightarrow> bytes \<Rightarrow> bytes \<Rightarrow> bytes option"

definition colon :: "16 word" where
  "colon = 58"

text \<open>\<^verbatim>\<open>getAppKey\<close> on the text of the key file (\<open>None\<close> when the file does not exist);
  \<open>random32\<close> is what \<^verbatim>\<open>crypto.randomBytes(32)\<close> returns if a key has to be made. The second
  component is the key file afterwards.\<close>

definition getAppKey :: "bytes \<Rightarrow> jsstring option \<Rightarrow> bytes \<times> jsstring option" where
  "getAppKey random32 keyFile =
     (case keyFile of
        Some t \<Rightarrow> (hexDecode (trim t), Some t)
      | None \<Rightarrow> (random32, Some (hexEncode random32)))"

text \<open>\<^verbatim>\<open>encryptData\<close>; \<open>iv\<close> is what \<^verbatim>\<open>crypto.randomBytes(16)\<close> returns.\<close>

definition encryptData ::
  "cipher \<Rightarrow> bytes \<Rightarrow> bytes \<Rightarrow> jsstring \<Rightarrow> jsstring option \<Rightarrow> error + jsstring \<times> jsstring option" where
  "encryptData c random32 iv data keyFile =
     (let (key, keyFile') = getAppKey random32 keyFile in
      case encrypt_gcm c key iv (utf8_encode data) of
        None \<Rightarrow> Inl CipherError
      | Some (encrypted, tag) \<Rightarrow>
          Inr (hexEncode iv @ [colon] @ hexEncode tag @ [colon] @ hexEncode encrypted, keyFile'))"

text \<open>\<^verbatim>\<open>decryptData\<close>.\<close>

definition decryptData ::
  "cipher \<Rightarrow> bytes \<Rightarrow> jsstring \<Rightarrow> jsstring option \<Rightarrow> error + jsstring \<times> jsstring option" where
  "decryptData c random32 encryptedStr keyFile =
     (let (key, keyFile') = getAppKey random32 keyFile;
          parts = splitOn colon encryptedStr in
      if length parts \<noteq> 3 then Inl InvalidEncryptedData
      else
        (let iv = hexDecode (parts ! 0);
             tag = hexDecode (parts ! 1);
             encrypted = parts ! 2 in
         case decrypt_gcm c key iv tag (hexDecode encrypted) of
           None \<Rightarrow> Inl CipherError
         | Some decrypted \<Rightarrow> Inr (utf8_decode decrypted, keyFile')))"

section \<open>JSON values and the JavaScript operations the stores apply to them\<close>

text \<open>
  The two storage modules keep every document as JSON text and read it back with
  \<^verbatim>\<open>JSON.parse(...) as T\<close>. The cast is unchecked, so what an operation receives is
  whatever JSON value the text denotes. The model therefore works on untyped JSON values
  and writes out the \<^verbatim>\<open>TypeError\<close> that JavaScript raises when a method or a property of
  an unsuitable value is used.

  Numbers are modelled as integers (every number the stores create is a timestamp or a
  byte count) and the strings inside documents as \<open>string\<close>. An object is the list of its
  own properties in insertion order; where a key is repeated the first pair is the
  property. (JavaScript lists integer-like keys before the others; nothing below depends
  on the order of properties.)
\<close>

datatype json =
    JNull
  | JBool bool
  | JNum int
  | JStr string
  | JArr "json list"
  | JObj "(string \<times> json) list"

text \<open>\<^verbatim>\<open>v.k\<close> for a data field \<open>k\<close> (never \<^verbatim>\<open>length\<close> or an index): reading a property
  of \<^verbatim>\<open>null\<close> throws, an object gives the property or \<^verbatim>\<open>undefined\<close> (\<open>None\<close>), every other
  value gives \<^verbatim>\<open>undefined\<close>.\<close>

fun getProp :: "json \<Rightarrow> string \<Rightarrow> error + json option" where
  "getProp JNull k = Inl TypeError"
| "getProp (JObj kvs) k = Inr (map_of kvs k)"
| "getProp v k = Inr None"

text \<open>The receiver of \<^verbatim>\<open>some\<close>, \<^verbatim>\<open>find\<close>, \<^verbatim>\<open>findIndex\<close>, \<^verbatim>\<open>filter\<close>, \<^verbatim>\<open>push\<close> and
  \<^verbatim>\<open>unshift\<close>: only an array has these methods; on \<^verbatim>\<open>null\<close> the property read throws, on
  any other parsed value the property is not a function and the call throws.\<close>

fun asArray :: "json \<Rightarrow> error + json list" where
  "asArray (JArr xs) = Inr xs"
| "asArray v = Inl TypeError"

text \<open>The callbacks \<^verbatim>\<open>(x) => x.k === s\<close> and \<^verbatim>\<open>(x) => x.k !== s\<close> for a string \<open>s\<close>.\<close>

definition fieldIs :: "string \<Rightarrow> string \<Rightarrow> json \<Rightarrow> error + bool" where
  "fieldIs k s x = (case getProp x k of Inl e \<Rightarrow> Inl e | Inr v \<Rightarrow> Inr (v = Some (JStr s)))"

definition fieldIsNot :: "string \<Rightarrow> string \<Rightarrow> json \<Rightarrow> error + bool" where
  "fieldIsNot k s x = (case getProp x k of Inl e \<Rightarrow> Inl e | Inr v \<Rightarrow> Inr (v \<noteq> Some (JStr s)))"

text \<open>\<^verbatim>\<open>Array.prototype.some\<close>, \<^verbatim>\<open>find\<close>, \<^verbatim>\<open>findIndex\<close> and \<^verbatim>\<open>filter\<close> with a callback that
  may throw: elements are visited left to right, the first three stop at the first hit.\<close>

fun some_js :: "(json \<Rightarrow> error + bool) \<Rightarrow> json list \<Rightarrow> error + bool" where
  "some_js p [] = Inr False"
| "some_js p (x # xs) =
     (case p x of Inl e \<Rightarrow> Inl e | Inr b \<Rightarrow> if b then Inr True else some_js p xs)"

fun find_js :: "(json \<Rightarrow> error + bool) \<Rightarrow> json list \<Rightarrow> error + json option" where
  "find_js p [] = Inr None"
| "find_js p (x # xs) =
     (case p x of Inl e \<Rightarrow> Inl e | Inr b \<Rightarrow> if b then Inr (Some x) else find_js p xs)"

fun findIndex_js :: "(json \<Rightarrow> error + bool) \<Rightarrow> json list \<Rightarrow> error + nat option" where
  "findIndex_js p [] = Inr None"
| "findIndex_js p (x # xs) =
     (case p x of Inl e \<Rightarrow> Inl e
      | Inr b \<Rightarrow> if b then Inr (Some 0)
          else (case findIndex_js p xs of Inl e \<Rightarrow> Inl e
                | Inr None \<Rightarrow> Inr None
                | Inr (Some i) \<Rightarrow> Inr (Some (Suc i))))"

fun filter_js :: "(json \<Rightarrow> error + bool) \<Rightarrow> json list \<Rightarrow> error + json list" where
  "filter_js p [] = Inr []"
| "filter_js p (x # xs) =
     (case p x of Inl e \<Rightarrow> Inl e
      | Inr b \<Rightarrow> (case filter_js p xs of Inl e \<Rightarrow> Inl e
                 | Inr ys \<Rightarrow> Inr (if b then x # ys else ys)))"

text \<open>\<^verbatim>\<open>v.length === 0\<close>, as \<^verbatim>\<open>getProfiles\<close> asks of whatever it has read.\<close>

fun lengthIsZero :: "json \<Rightarrow> error + bool" where
  "lengthIsZero JNull = Inl TypeError"
| "lengthIsZero (JArr xs) = Inr (xs = [])"
| "lengthIsZero (JStr s) = Inr (s = [])"
| "lengthIsZero (JObj kvs) = Inr (map_of kvs ''length'' = Some (JNum 0))"
| "lengthIsZero v = Inr False"

text \<open>Decimal rendering of an index, for the keys of a spread array or string.\<close>

fun decimal :: "nat \<Rightarrow> string" where
  "decimal n =
     (if n < 10 then [char_of (48 + n)]
      else decimal (n div 10) @ [char_of (48 + n mod 10)])"

text \<open>The own enumerable properties that an object spread \<^verbatim>\<open>{...v}\<close> copies: those of an
  object, the indexed elements of an array, the indexed characters of a string, nothing
  for \<^verbatim>\<open>null\<close>, a boolean or a number.\<close>

fun ownProps :: "json \<Rightarrow> (string \<times> json) list" where
  "ownProps (JObj kvs) = AList.clearjunk kvs"
| "ownProps (JArr xs) = zip (map decimal [0..<length xs]) xs"
| "ownProps (JStr s) = zip (map decimal [0..<length s]) (map (\<lambda>c. JStr [c]) s)"
| "ownProps v = []"

text \<open>\<^verbatim>\<open>{...t, ...v}\<close>: each property of \<open>v\<close> is assigned in turn, replacing in place a
  property \<open>t\<close> already has and appending a new one.\<close>

definition spreadOver :: "(string \<times> json) list \<Rightarrow> json \<Rightarrow> (string \<times> json) list" where
  "spreadOver t v = foldl (\<lambda>acc (k, x). AList.update k x acc) t (ownProps v)"

section \<open>The persisted state\<close>

text \<open>
  A file is represented by what the one reader of its path makes of it. A JSON document
  either fails \<^verbatim>\<open>JSON.parse\<close> or parses to a value; \<^verbatim>\<open>JSON.stringify\<close> followed by
  \<^verbatim>\<open>JSON.parse\<close> gives the value back. The key file either decodes to a 32-byte key or
  to a buffer that \<^verbatim>\<open>createCipheriv\<close> rejects. An encrypted file either is no envelope the
  cipher accepts, or is an envelope sealed under some key, holding a text seen as a JSON
  document; an envelope opens only under the key that sealed it.

  This first view of the state is the document view: a document is addressed by its
  scope and its name, and the directories on the way to it are taken to be in order
  (\<^verbatim>\<open>ensureDir\<close> creates what is missing), with a profile id naming one directory of its
  own. It serves the properties of the single stores. The paths, the directories and the
  failures of the file system are the subject of the second view, further down, which
  serves the properties that range over every operation and every id.
\<close>

datatype jsonfile = Unparsable | Parses json

type_synonym key = bytes

datatype keyfile = ValidKey key | InvalidKey

datatype encfile = NotEnvelope | Sealed key jsonfile

record store =
  keyFile :: "keyfile option"
  encFiles :: "string \<Rightarrow> encfile option"
  globalDocs :: "string \<Rightarrow> jsonfile option"
  profileDocs :: "string \<Rightarrow> string \<Rightarrow> jsonfile option"
  activeProfileId :: string

text \<open>A fresh data root: no file at all, the process starts on the default profile.\<close>

definition fresh :: store where
  "fresh = \<lparr> keyFile = None, encFiles = (\<lambda>_. None), globalDocs = (\<lambda>_. None),
             profileDocs = (\<lambda>_ _. None), activeProfileId = ''default'' \<rparr>"

subsection \<open>File system helpers of the profile-aware module\<close>

text \<open>\<^verbatim>\<open>readJSON\<close>: a missing file and a parse failure both give the fallback.\<close>

fun readJSON :: "jsonfile option \<Rightarrow> json \<Rightarrow> json" where
  "readJSON None fallback = fallback"
| "readJSON (Some Unparsable) fallback = fallback"
| "readJSON (Some (Parses v)) fallback = v"

definition readGlobal :: "string \<Rightarrow> json \<Rightarrow> store \<Rightarrow> json" where
  "readGlobal name fallback s = readJSON (globalDocs s name) fallback"

definition readProfile :: "string \<Rightarrow> json \<Rightarrow> store \<Rightarrow> json" where
  "readProfile name fallback s = readJSON (profileDocs s (activeProfileId s) name) fallback"

definition writeGlobal :: "string \<Rightarrow> json \<Rightarrow> store \<Rightarrow> store" where
  "writeGlobal name v s = s\<lparr> globalDocs := (globalDocs s)(name \<mapsto> Parses v) \<rparr>"

definition writeProfile :: "string \<Rightarrow> json \<Rightarrow> store \<Rightarrow> store" where
  "writeProfile name v s =
     s\<lparr> profileDocs := (profileDocs s)
          (activeProfileId s := (profileDocs s (activeProfileId s))(name \<mapsto> Parses v)) \<rparr>"

subsection \<open>Encryption layer, as the stores see it\<close>

text \<open>The stores reach the encryption layer through \<^verbatim>\<open>readEncrypted\<close> and
  \<^verbatim>\<open>writeEncrypted\<close>. On the view of the files taken here, \<open>getAppKey_abs\<close> is \<^verbatim>\<open>getAppKey\<close>:
  an existing key file is decoded, otherwise a fresh random key \<open>fresh_key\<close> is written and
  returned. \<^verbatim>\<open>encryptData\<close> fails exactly when the key has the wrong length and otherwise
  seals the text under the key; \<^verbatim>\<open>decryptData\<close> succeeds exactly on an envelope sealed
  under the key in force.\<close>

definition getAppKey_abs :: "key \<Rightarrow> store \<Rightarrow> keyfile \<times> store" where
  "getAppKey_abs fresh_key s =
     (case keyFile s of
        Some k \<Rightarrow> (k, s)
      | None \<Rightarrow> (ValidKey fresh_key, s\<lparr> keyFile := Some (ValidKey fresh_key) \<rparr>))"

text \<open>\<^verbatim>\<open>readEncrypted\<close>: every failure inside the \<^verbatim>\<open>try\<close> gives the fallback. A missing file
  fails before \<^verbatim>\<open>decryptData\<close> runs; otherwise \<^verbatim>\<open>decryptData\<close> first fetches the key, which
  creates the key file when there is none.\<close>

definition readEncrypted :: "string \<Rightarrow> json \<Rightarrow> key \<Rightarrow> store \<Rightarrow> json \<times> store" where
  "readEncrypted name fallback fresh_key s =
     (case encFiles s name of
        None \<Rightarrow> (fallback, s)
      | Some f \<Rightarrow>
          (let (k, s1) = getAppKey_abs fresh_key s in
           case f of
             NotEnvelope \<Rightarrow> (fallback, s1)
           | Sealed k' body \<Rightarrow>
               if k = ValidKey k' then (readJSON (Some body) fallback, s1)
               else (fallback, s1)))"

text \<open>\<^verbatim>\<open>writeEncrypted\<close>: nothing catches here, so a key of the wrong length makes
  \<^verbatim>\<open>createCipheriv\<close> throw to the caller.\<close>

definition writeEncrypted :: "string \<Rightarrow> json \<Rightarrow> key \<Rightarrow> store \<Rightarrow> error + store" where
  "writeEncrypted name v fresh_key s =
     (let (k, s1) = getAppKey_abs fresh_key s in
      case k of
        InvalidKey \<Rightarrow> Inl InvalidKeyLength
      | ValidKey k' \<Rightarrow> Inr (s1\<lparr> encFiles := (encFiles s1)(name \<mapsto> Sealed k' (Parses v)) \<rparr>))"

section \<open>Profile system\<close>

text \<open>The interface \<^verbatim>\<open>Profile\<close> and its JSON form; \<open>mkProfile\<close> is the object literal that
  \<^verbatim>\<open>getProfiles\<close> and \<^verbatim>\<open>createProfile\<close> build.\<close>

record Profile =
  profile_id :: string
  profile_name :: string
  profile_avatar :: string
  profile_createdAt :: int
  profile_isDefault :: bool

definition Profile_json :: "Profile \<Rightarrow> json" where
  "Profile_json p =
     JObj [(''id'', JStr (profile_id p)), (''name'', JStr (profile_name p)),
           (''avatar'', JStr (profile_avatar p)), (''createdAt'', JNum (profile_createdAt p)),
           (''isDefault'', JBool (profile_isDefault p))]"

definition mkProfile :: "string \<Rightarrow> string \<Rightarrow> string \<Rightarrow> int \<Rightarrow> bool \<Rightarrow> json" where
  "mkProfile pid name avatar createdAt isDefault =
     Profile_json \<lparr> profile_id = pid, profile_name = name, profile_avatar = avatar,
                    profile_createdAt = createdAt, profile_isDefault = isDefault \<rparr>"

text \<open>\<^verbatim>\<open>getProfiles\<close>; \<open>now\<close> is the clock value \<^verbatim>\<open>Date.now()\<close> gives if the default profile
  has to be written.\<close>

definition getProfiles :: "int \<Rightarrow> store \<Rightarrow> error + json \<times> store" where
  "getProfiles now s =
     (let profiles = readGlobal ''profiles'' (JArr []) s in
      case lengthIsZero profiles of
        Inl e \<Rightarrow> Inl e
      | Inr isEmpty \<Rightarrow>
          if isEmpty then
            (let def = mkProfile ''default'' ''Default'' ''person'' now True
             in Inr (JArr [def], writeGlobal ''profiles'' (JArr [def]) s))
          else Inr (profiles, s))"

text \<open>\<^verbatim>\<open>switchProfile\<close>; the element \<^verbatim>\<open>find\<close> returns is an object (its \<^verbatim>\<open>id\<close> is a string), so
  \<^verbatim>\<open>!profile\<close> holds exactly when nothing was found.\<close>

definition switchProfile :: "string \<Rightarrow> int \<Rightarrow> store \<Rightarrow> error + json \<times> store" where
  "switchProfile pid now0 s =
     (case getProfiles now0 s of
        Inl e \<Rightarrow> Inl e
      | Inr (profiles, s1) \<Rightarrow>
          (case asArray profiles of
             Inl e \<Rightarrow> Inl e
           | Inr ps \<Rightarrow>
               (case find_js (fieldIs ''id'' pid) ps of
                  Inl e \<Rightarrow> Inl e
                | Inr None \<Rightarrow> Inr (JNull, s1)
                | Inr (Some profile) \<Rightarrow> Inr (profile, s1\<lparr> activeProfileId := pid \<rparr>))))"

section \<open>Auth system\<close>

text \<open>The optional strings of an \<^verbatim>\<open>AuthState\<close> are \<^verbatim>\<open>null\<close> when absent.\<close>

definition mkAuthState :: "bool \<Rightarrow> json \<Rightarrow> json \<Rightarrow> json \<Rightarrow> json" where
  "mkAuthState isLoggedIn email token profileId =
     JObj [(''isLoggedIn'', JBool isLoggedIn), (''email'', email), (''token'', token),
           (''profileId'', profileId)]"

definition loggedOut :: json where
  "loggedOut = mkAuthState False JNull JNull JNull"

definition mkCredentials :: "string \<Rightarrow> string \<Rightarrow> string \<Rightarrow> int \<Rightarrow> json" where
  "mkCredentials email passwordHash salt createdAt =
     JObj [(''email'', JStr email), (''passwordHash'', JStr passwordHash), (''salt'', JStr salt),
           (''createdAt'', JNum createdAt)]"

definition mkResult :: "bool \<Rightarrow> string option \<Rightarrow> json" where
  "mkResult success err =
     (case err of
        None \<Rightarrow> JObj [(''success'', JBool success)]
      | Some msg \<Rightarrow> JObj [(''success'', JBool success), (''error'', JStr msg)])"

definition getAuthState :: "key \<Rightarrow> store \<Rightarrow> json \<times> store" where
  "getAuthState fresh_key s = readEncrypted ''auth'' loggedOut fresh_key s"

definition saveAuthState :: "json \<Rightarrow> key \<Rightarrow> store \<Rightarrow> error + store" where
  "saveAuthState st fresh_key s = writeEncrypted ''auth'' st fresh_key s"

text \<open>The random and clock values one call of \<^verbatim>\<open>registerUser\<close> or \<^verbatim>\<open>loginUser\<close> draws.\<close>

record entropy =
  rand_key :: key
  rand_salt :: string
  rand_token :: string
  clock :: int

text \<open>\<^verbatim>\<open>registerUser\<close>; \<open>kdf password salt\<close> stands for the hex text of
  \<^verbatim>\<open>pbkdf2Sync(password, salt, 100000, 64, "sha512")\<close>.\<close>

definition registerUser ::
  "(string \<Rightarrow> string \<Rightarrow> string) \<Rightarrow> string \<Rightarrow> string \<Rightarrow> entropy \<Rightarrow> store \<Rightarrow> error + json \<times> store" where
  "registerUser kdf email password r s =
     (let (creds, s1) = readEncrypted ''credentials'' (JArr []) (rand_key r) s in
      case asArray creds of
        Inl e \<Rightarrow> Inl e
      | Inr cs \<Rightarrow>
          (case some_js (fieldIs ''email'' email) cs of
             Inl e \<Rightarrow> Inl e
           | Inr taken \<Rightarrow>
               if taken then Inr (mkResult False (Some ''Email already registered''), s1)
               else
                 (let passwordHash = kdf password (rand_salt r);
                      cs' = cs @ [mkCredentials email passwordHash (rand_salt r) (clock r)] in
                  case writeEncrypted ''credentials'' (JArr cs') (rand_key r) s1 of
                    Inl e \<Rightarrow> Inl e
                  | Inr s2 \<Rightarrow>
                      (case saveAuthState
                              (mkAuthState True (JStr email) (JStr (rand_token r))
                                 (JStr (activeProfileId s2)))
                              (rand_key r) s2 of
                         Inl e \<Rightarrow> Inl e
                       | Inr s3 \<Rightarrow> Inr (mkResult True None, s3)))))"

text \<open>\<^verbatim>\<open>loginUser\<close>; \<^verbatim>\<open>pbkdf2Sync\<close> rejects a salt that is not a string with a
  \<^verbatim>\<open>TypeError\<close>.\<close>

definition loginUser ::
  "(string \<Rightarrow> string \<Rightarrow> string) \<Rightarrow> string \<Rightarrow> string \<Rightarrow> entropy \<Rightarrow> store \<Rightarrow> error + json \<times> store" where
  "loginUser kdf email password r s =
     (let (creds, s1) = readEncrypted ''credentials'' (JArr []) (rand_key r) s in
      case asArray creds of
        Inl e \<Rightarrow> Inl e
      | Inr cs \<Rightarrow>
          (case find_js (fieldIs ''email'' email) cs of
             Inl e \<Rightarrow> Inl e
           | Inr None \<Rightarrow> Inr (mkResult False (Some ''Invalid email or password''), s1)
           | Inr (Some user) \<Rightarrow>
               (case getProp user ''salt'' of
                  Inl e \<Rightarrow> Inl e
                | Inr (Some (JStr user_salt)) \<Rightarrow>
                    if getProp user ''passwordHash'' \<noteq> Inr (Some (JStr (kdf password user_salt)))
                    then Inr (mkResult False (Some ''Invalid email or password''), s1)
                    else
                      (case saveAuthState
                              (mkAuthState True (JStr email) (JStr (rand_token r))
                                 (JStr (activeProfileId s1)))
                              (rand_key r) s1 of
                         Inl e \<Rightarrow> Inl e
                       | Inr s2 \<Rightarrow> Inr (mkResult True None, s2))
                | Inr _ \<Rightarrow> Inl TypeError)))"

definition mkProvider :: "string \<Rightarrow> string \<Rightarrow> string \<Rightarrow> json" where
  "mkProvider pid name authUrl =
     JObj [(''id'', JStr pid), (''name'', JStr name), (''authUrl'', JStr authUrl)]"

definition getSSOProviders :: json where
  "getSSOProviders =
     JArr [mkProvider ''google'' ''Google'' ''https://accounts.google.com/o/oauth2/v2/auth'',
           mkProvider ''github'' ''GitHub'' ''https://github.com/login/oauth/authorize'',
           mkProvider ''microsoft'' ''Microsoft''
             ''https://login.microsoftonline.com/common/oauth2/v2.0/authorize'']"

section \<open>Records the domain stores hold\<close>

text \<open>Each interface of the source is a record with its JSON form; a field whose name is
  also a parameter name of the operations carries a prefix.\<close>

record Bookmark =
  bm_url :: string
  bm_title :: string
  addedAt :: int

definition Bookmark_json :: "Bookmark \<Rightarrow> json" where
  "Bookmark_json b =
     JObj [(''url'', JStr (bm_url b)), (''title'', JStr (bm_title b)), (''addedAt'', JNum (addedAt b))]"

definition mkBookmark :: "string \<Rightarrow> string \<Rightarrow> int \<Rightarrow> json" where
  "mkBookmark url title now = Bookmark_json \<lparr> bm_url = url, bm_title = title, addedAt = now \<rparr>"

record HistoryEntry =
  he_url :: string
  he_title :: string
  visitedAt :: int

definition HistoryEntry_json :: "HistoryEntry \<Rightarrow> json" where
  "HistoryEntry_json h =
     JObj [(''url'', JStr (he_url h)), (''title'', JStr (he_title h)),
           (''visitedAt'', JNum (visitedAt h))]"

definition mkHistoryEntry :: "string \<Rightarrow> string \<Rightarrow> int \<Rightarrow> json" where
  "mkHistoryEntry url title now =
     HistoryEntry_json \<lparr> he_url = url, he_title = title, visitedAt = now \<rparr>"

record SessionTab =
  tab_url :: string
  tab_title :: string

definition SessionTab_json :: "SessionTab \<Rightarrow> json" where
  "SessionTab_json t = JObj [(''url'', JStr (tab_url t)), (''title'', JStr (tab_title t))]"

datatype DownloadState = progressing | completed | cancelled | interrupted

fun DownloadState_json :: "DownloadState \<Rightarrow> json" where
  "DownloadState_json progressing = JStr ''progressing''"
| "DownloadState_json completed = JStr ''completed''"
| "DownloadState_json cancelled = JStr ''cancelled''"
| "DownloadState_json interrupted = JStr ''interrupted''"

text \<open>\<^verbatim>\<open>DownloadItem\<close>; its \<^verbatim>\<open>id\<close> is the field \<open>ident\<close>, its \<^verbatim>\<open>url\<close> the field \<open>durl\<close>, its
  \<^verbatim>\<open>state\<close> the field \<open>dstate\<close>.\<close>

record DownloadItem =
  ident :: string
  filename :: string
  durl :: string
  savePath :: string
  totalBytes :: int
  receivedBytes :: int
  dstate :: DownloadState
  startedAt :: int

definition DownloadItem_json :: "DownloadItem \<Rightarrow> json" where
  "DownloadItem_json d =
     JObj [(''id'', JStr (ident d)), (''filename'', JStr (filename d)), (''url'', JStr (durl d)),
           (''savePath'', JStr (savePath d)), (''totalBytes'', JNum (totalBytes d)),
           (''receivedBytes'', JNum (receivedBytes d)), (''state'', DownloadState_json (dstate d)),
           (''startedAt'', JNum (startedAt d))]"

text \<open>\<^verbatim>\<open>x.k.toLowerCase().includes(q)\<close>: \<^verbatim>\<open>toLowerCase\<close> exists on a string only, so any other
  value of the field, \<^verbatim>\<open>undefined\<close> included, throws. \<open>toLowerCase\<close> is JavaScript's
  Unicode lower-casing, taken as a parameter.\<close>

definition lowerIncludes :: "(string \<Rightarrow> string) \<Rightarrow> string \<Rightarrow> string \<Rightarrow> json \<Rightarrow> error + bool" where
  "lowerIncludes toLowerCase k q x =
     (case getProp x k of
        Inl e \<Rightarrow> Inl e
      | Inr (Some (JStr v)) \<Rightarrow> Inr (sublist q (toLowerCase v))
      | Inr _ \<Rightarrow> Inl TypeError)"

text \<open>The filter of \<^verbatim>\<open>searchHistory\<close>; \<^verbatim>\<open>||\<close> looks at the title only when the url does
  not match.\<close>

definition historyMatches :: "(string \<Rightarrow> string) \<Rightarrow> string \<Rightarrow> json \<Rightarrow> error + bool" where
  "historyMatches toLowerCase q h =
     (case lowerIncludes toLowerCase ''url'' q h of
        Inl e \<Rightarrow> Inl e
      | Inr b \<Rightarrow> if b then Inr True else lowerIncludes toLowerCase ''title'' q h)"

section \<open>Domain stores of the profile-aware module\<close>

text \<open>Every document of these stores lies in the directory of the active profile.\<close>

subsection \<open>Bookmarks\<close>

definition getBookmarks :: "store \<Rightarrow> json" where
  "getBookmarks s = readProfile ''bookmarks'' (JArr []) s"

definition addBookmark :: "string \<Rightarrow> string \<Rightarrow> int \<Rightarrow> store \<Rightarrow> error + json \<times> store" where
  "addBookmark url title now s =
     (case asArray (getBookmarks s) of
        Inl e \<Rightarrow> Inl e
      | Inr bookmarks \<Rightarrow>
          (case some_js (fieldIs ''url'' url) bookmarks of
             Inl e \<Rightarrow> Inl e
           | Inr present \<Rightarrow>
               if \<not> present then
                 (let bookmarks' = bookmarks @ [mkBookmark url title now]
                  in Inr (JArr bookmarks', writeProfile ''bookmarks'' (JArr bookmarks') s))
               else Inr (JArr bookmarks, s)))"



subsection \<open>History\<close>

definition getHistory :: "store \<Rightarrow> json" where
  "getHistory s = readProfile ''history'' (JArr []) s"

text \<open>\<^verbatim>\<open>unshift\<close> puts the entry in front; assigning \<^verbatim>\<open>length = 1000\<close> to a longer array
  keeps its first 1000 elements.\<close>

definition addHistoryEntry :: "string \<Rightarrow> string \<Rightarrow> int \<Rightarrow> store \<Rightarrow> error + store" where
  "addHistoryEntry url title now s =
     (case asArray (getHistory s) of
        Inl e \<Rightarrow> Inl e
      | Inr old \<Rightarrow>
          (let history = mkHistoryEntry url title now # old;
               history' = (if length history > 1000 then take 1000 history else history)
           in Inr (writeProfile ''history'' (JArr history') s)))"



subsection \<open>Settings\<close>

definition defaultSettings :: "(string \<times> json) list" where
  "defaultSettings =
     [(''searchEngine'', JStr ''duckduckgo''), (''adBlockEnabled'', JBool True),
      (''restoreSession'', JBool True)]"

definition getSettings :: "store \<Rightarrow> json" where
  "getSettings s =
     JObj (spreadOver (spreadOver [] (JObj defaultSettings))
             (readProfile ''settings'' (JObj []) s))"

subsection \<open>Session\<close>



subsection \<open>Downloads\<close>

definition getDownloads :: "store \<Rightarrow> json" where
  "getDownloads s = readProfile ''downloads'' (JArr []) s"

text \<open>An index \<^verbatim>\<open>findIndex\<close> returns lies inside the array, so \<^verbatim>\<open>downloads[idx] = item\<close>
  replaces that element.\<close>

definition saveDownload :: "DownloadItem \<Rightarrow> store \<Rightarrow> error + store" where
  "saveDownload item s =
     (case asArray (getDownloads s) of
        Inl e \<Rightarrow> Inl e
      | Inr old \<Rightarrow>
          (case findIndex_js (fieldIs ''id'' (ident item)) old of
             Inl e \<Rightarrow> Inl e
           | Inr found \<Rightarrow>
               (let downloads = (case found of
                                   Some idx \<Rightarrow> old[idx := DownloadItem_json item]
                                 | None \<Rightarrow> DownloadItem_json item # old);
                    downloads' = (if length downloads > 100 then take 100 downloads else downloads)
                in Inr (writeProfile ''downloads'' (JArr downloads') s))))"


section \<open>The plain storage module\<close>

text \<open>The module the main process imports as \<^verbatim>\<open>./storage\<close>: the same stores, every document
  directly under the data directory. Its functions carry the prefix \<open>storage_\<close>.\<close>

definition storage_readJSON :: "string \<Rightarrow> json \<Rightarrow> store \<Rightarrow> json" where
  "storage_readJSON name fallback s =
     (case globalDocs s name of
        None \<Rightarrow> fallback
      | Some Unparsable \<Rightarrow> fallback
      | Some (Parses v) \<Rightarrow> v)"

definition storage_writeJSON :: "string \<Rightarrow> json \<Rightarrow> store \<Rightarrow> store" where
  "storage_writeJSON name v s = s\<lparr> globalDocs := (globalDocs s)(name \<mapsto> Parses v) \<rparr>"

subsection \<open>Bookmarks\<close>





subsection \<open>History\<close>





subsection \<open>Settings\<close>

definition storage_defaultSettings :: "(string \<times> json) list" where
  "storage_defaultSettings =
     [(''searchEngine'', JStr ''google''), (''adBlockEnabled'', JBool True),
      (''restoreSession'', JBool True)]"

subsection \<open>Session\<close>



subsection \<open>Downloads\<close>




section \<open>The stores on the file system\<close>

text \<open>
  The document view above leaves out what lies between an operation and its document: the
  path of the document, the directories on the way to it, and the profile id, which the
  profile-aware module splices into the path unchecked. This section models the operations
  of both modules on a file system, with those steps written out: \<^verbatim>\<open>path.join\<close> resolves
  the id, \<^verbatim>\<open>ensureDir\<close> runs where the source runs it (for a profile document before
  \<^verbatim>\<open>readJSON\<close> is entered, so outside its \<^verbatim>\<open>try\<close>), a write fails when a file lies where a
  directory is needed or a directory where the file is to go, and \<^verbatim>\<open>deleteProfile\<close> removes
  whatever subtree the id resolves to. An operation returns its result together with the
  disk it leaves behind, also when it throws: what was written before the exception stays
  written. The functions of this view carry the suffix \<open>_fs\<close> where the document view has
  one of the same name.

  A path is the list of its components below the root, as on POSIX (separator \<^verbatim>\<open>/\<close>). A
  disk maps a path to a directory or to a file; a file is represented, as before, by what
  the reader of its path makes of it. Each path has one reader (JSON documents end in
  \<^verbatim>\<open>.json\<close>, the encrypted files in \<^verbatim>\<open>.enc\<close>, the key file is \<^verbatim>\<open>.browser-key\<close>); a reader that
  meets content of another kind cannot use it. \<open>userData\<close> is the absolute path
  \<^verbatim>\<open>app.getPath("userData")\<close>, \<open>activeId\<close> the module variable \<^verbatim>\<open>activeProfileId\<close>, and
  \<open>fsAccepts\<close> tells which paths the file system accepts at all (its limits on the length
  of a name and of a path, its reserved characters).

  Outside the model: permissions, quotas and links, and the separators of Windows. Inside
  the user-data directory every call is taken to be permitted. What a recursive removal
  does to a directory outside it is not determined by the program; it is an input
  (\<open>rm_outcome\<close>). A removal that completes needs the right to write to the parent, which
  is the right needed to create the directory again.
\<close>

type_synonym path = "string list"

datatype content = JsonText jsonfile | KeyText keyfile | EnvelopeText encfile

datatype node = Dir | File content

record disk =
  nodes :: "path \<Rightarrow> node option"
  userData :: path
  activeId :: string
  fsAccepts :: "path \<Rightarrow> bool"

type_synonym 'a outcome = "(error + 'a) \<times> disk"

fun isFile :: "node option \<Rightarrow> bool" where
  "isFile (Some (File c)) = True"
| "isFile n = False"

fun isDir :: "node option \<Rightarrow> bool" where
  "isDir (Some Dir) = True"
| "isDir n = False"

text \<open>Sequencing: an exception ends the operation, keeping the disk as it is then.\<close>

definition thenDo :: "'a outcome \<Rightarrow> ('a \<Rightarrow> disk \<Rightarrow> 'b outcome) \<Rightarrow> 'b outcome" where
  "thenDo r k = (case r of (Inl e, d) \<Rightarrow> (Inl e, d) | (Inr x, d) \<Rightarrow> k x d)"

subsection \<open>Paths\<close>

text \<open>\<^verbatim>\<open>path.join\<close> concatenates its arguments with \<^verbatim>\<open>/\<close> and normalises the result: empty
  segments and \<^verbatim>\<open>.\<close> are dropped, \<^verbatim>\<open>..\<close> removes the component before it (at the root,
  nothing). \<open>joinPath dir s\<close> is \<^verbatim>\<open>path.join(dir, s)\<close> for a normalised absolute \<open>dir\<close>. The
  result keeps a trailing separator exactly when \<open>s\<close> ends in one; such a path names a
  directory only.\<close>

fun joinSegments :: "path \<Rightarrow> string list \<Rightarrow> path" where
  "joinSegments p [] = p"
| "joinSegments p (s # ss) =
     (if s = [] \<or> s = ''.'' then joinSegments p ss
      else if s = ''..'' then joinSegments (butlast p) ss
      else joinSegments (p @ [s]) ss)"

definition joinPath :: "path \<Rightarrow> string \<Rightarrow> path" where
  "joinPath dir s = joinSegments dir (splitOn CHR ''/'' s)"

definition trailingSlash :: "string \<Rightarrow> bool" where
  "trailingSlash s \<longleftrightarrow> s \<noteq> [] \<and> last s = CHR ''/''"

text \<open>Node rejects a path that contains a NUL character, the file system one it does not
  accept: \<^verbatim>\<open>existsSync\<close> answers \<^verbatim>\<open>false\<close>, every other call throws.\<close>

definition validPath :: "disk \<Rightarrow> path \<Rightarrow> bool" where
  "validPath d p \<longleftrightarrow> list_all (\<lambda>c. CHR 0x00 \<notin> set c) p \<and> fsAccepts d p"

subsection \<open>The calls into \<^verbatim>\<open>fs\<close>\<close>

text \<open>\<^verbatim>\<open>fs.existsSync\<close>; \<open>slash\<close> tells whether the path ends in a separator, in which case a
  file does not count.\<close>

definition existsSync :: "path \<Rightarrow> bool \<Rightarrow> disk \<Rightarrow> bool" where
  "existsSync p slash d \<longleftrightarrow>
     validPath d p \<and> (case nodes d p of None \<Rightarrow> False | Some Dir \<Rightarrow> True | Some (File c) \<Rightarrow> \<not> slash)"

text \<open>\<^verbatim>\<open>fs.mkdirSync(p, { recursive: true })\<close>: creates every missing directory on the way;
  throws when a file lies on the way or at \<open>p\<close> itself.\<close>

definition mkdirSync :: "path \<Rightarrow> disk \<Rightarrow> unit outcome" where
  "mkdirSync p d =
     (if validPath d p \<and> list_all (\<lambda>q. \<not> isFile (nodes d q)) (prefixes p)
      then (Inr (), d\<lparr> nodes := (\<lambda>q. if prefix q p \<and> nodes d q = None then Some Dir else nodes d q) \<rparr>)
      else (Inl FsError, d))"

text \<open>\<^verbatim>\<open>fs.readFileSync(p, "utf-8")\<close>; \<open>None\<close> stands for the exception thrown when \<open>p\<close> is
  not a file. Every caller but \<^verbatim>\<open>getAppKey\<close> reads inside a \<^verbatim>\<open>try\<close>.\<close>

definition readFileSync :: "path \<Rightarrow> disk \<Rightarrow> content option" where
  "readFileSync p d =
     (if validPath d p then (case nodes d p of Some (File c) \<Rightarrow> Some c | _ \<Rightarrow> None) else None)"

text \<open>\<^verbatim>\<open>fs.writeFileSync\<close>: the parent has to be a directory and \<open>p\<close> must not be one.\<close>

definition writeFileSync :: "path \<Rightarrow> content \<Rightarrow> disk \<Rightarrow> unit outcome" where
  "writeFileSync p c d =
     (if validPath d p \<and> p \<noteq> [] \<and> isDir (nodes d (butlast p)) \<and> \<not> isDir (nodes d p)
      then (Inr (), d\<lparr> nodes := (nodes d)(p \<mapsto> File c) \<rparr>)
      else (Inl FsError, d))"

text \<open>\<^verbatim>\<open>fs.rmSync(p, { recursive: true, force: true })\<close> removes \<open>p\<close> and everything below
  it. Inside the user-data directory that succeeds. Elsewhere the file system decides:
  the removal completes, or it throws after the nodes chosen by \<open>gone\<close> (each with
  everything below it) have been removed.\<close>

datatype rm_outcome = RmCompleted | RmFailed "path \<Rightarrow> bool"

definition removeTree :: "path \<Rightarrow> disk \<Rightarrow> disk" where
  "removeTree p d = d\<lparr> nodes := (\<lambda>q. if prefix p q then None else nodes d q) \<rparr>"

definition removePart :: "path \<Rightarrow> (path \<Rightarrow> bool) \<Rightarrow> disk \<Rightarrow> disk" where
  "removePart p gone d =
     d\<lparr> nodes := (\<lambda>q. if list_ex (\<lambda>r. prefix p r \<and> gone r) (prefixes q) then None else nodes d q) \<rparr>"

definition rmSync :: "path \<Rightarrow> rm_outcome \<Rightarrow> disk \<Rightarrow> unit outcome" where
  "rmSync p env d =
     (if prefix (userData d) p then (Inr (), removeTree p d)
      else (case env of
              RmCompleted \<Rightarrow> (Inr (), removeTree p d)
            | RmFailed gone \<Rightarrow> (Inl FsError, removePart p gone d)))"

subsection \<open>File system helpers of the profile-aware module\<close>

definition baseDataDir :: "disk \<Rightarrow> path" where
  "baseDataDir d = userData d @ [''browser-data'']"

definition ensureDir :: "path \<Rightarrow> bool \<Rightarrow> disk \<Rightarrow> unit outcome" where
  "ensureDir dir slash d = (if \<not> existsSync dir slash d then mkdirSync dir d else (Inr (), d))"

text \<open>\<^verbatim>\<open>profileDir()\<close>: the stores only ever call it for the active profile.\<close>

definition profileDir :: "disk \<Rightarrow> path outcome" where
  "profileDir d =
     (let ident = activeId d;
          dir = joinPath (baseDataDir d @ [''profiles'']) ident
      in thenDo (ensureDir dir (trailingSlash ident) d) (\<lambda>_ d1. (Inr dir, d1)))"

definition globalPath :: "string \<Rightarrow> disk \<Rightarrow> path outcome" where
  "globalPath name d =
     thenDo (ensureDir (baseDataDir d) False d) (\<lambda>_ d1. (Inr (baseDataDir d1 @ [name @ ''.json'']), d1))"

definition profilePath :: "string \<Rightarrow> disk \<Rightarrow> path outcome" where
  "profilePath name d = thenDo (profileDir d) (\<lambda>dir d1. (Inr (dir @ [name @ ''.json'']), d1))"

text \<open>What the JSON reader makes of a file: content of another kind does not parse.\<close>

fun jsonView :: "content option \<Rightarrow> jsonfile option" where
  "jsonView None = None"
| "jsonView (Some (JsonText f)) = Some f"
| "jsonView (Some c) = Some Unparsable"

text \<open>\<^verbatim>\<open>readJSON(filePath, fallback)\<close>, its argument already evaluated: reading and
  parsing happen inside the \<^verbatim>\<open>try\<close>.\<close>

definition readJSON_fs :: "path \<Rightarrow> json \<Rightarrow> disk \<Rightarrow> json" where
  "readJSON_fs filePath fallback d = readJSON (jsonView (readFileSync filePath d)) fallback"

text \<open>\<^verbatim>\<open>writeJSON(filePath, data)\<close>: nothing is caught.\<close>

definition writeJSON_fs :: "path \<Rightarrow> json \<Rightarrow> disk \<Rightarrow> unit outcome" where
  "writeJSON_fs filePath v d =
     thenDo (ensureDir (butlast filePath) False d) (\<lambda>_ d1. writeFileSync filePath (JsonText (Parses v)) d1)"

text \<open>The two ways the stores use these helpers: \<^verbatim>\<open>readJSON(profilePath(name), fallback)\<close>
  and \<^verbatim>\<open>writeJSON(profilePath(name), data)\<close>, and the same with \<^verbatim>\<open>globalPath\<close>. The path is
  computed, and its directory created, before \<^verbatim>\<open>readJSON\<close> or \<^verbatim>\<open>writeJSON\<close> is entered.\<close>

definition readProfileJSON :: "string \<Rightarrow> json \<Rightarrow> disk \<Rightarrow> json outcome" where
  "readProfileJSON name fallback d =
     thenDo (profilePath name d) (\<lambda>filePath d1. (Inr (readJSON_fs filePath fallback d1), d1))"

definition writeProfileJSON :: "string \<Rightarrow> json \<Rightarrow> disk \<Rightarrow> unit outcome" where
  "writeProfileJSON name v d = thenDo (profilePath name d) (\<lambda>filePath d1. writeJSON_fs filePath v d1)"

definition readGlobalJSON :: "string \<Rightarrow> json \<Rightarrow> disk \<Rightarrow> json outcome" where
  "readGlobalJSON name fallback d =
     thenDo (globalPath name d) (\<lambda>filePath d1. (Inr (readJSON_fs filePath fallback d1), d1))"

definition writeGlobalJSON :: "string \<Rightarrow> json \<Rightarrow> disk \<Rightarrow> unit outcome" where
  "writeGlobalJSON name v d = thenDo (globalPath name d) (\<lambda>filePath d1. writeJSON_fs filePath v d1)"

subsection \<open>Encrypted files\<close>

definition keyPath :: "disk \<Rightarrow> path" where
  "keyPath d = userData d @ [''.browser-key'']"

text \<open>\<^verbatim>\<open>getAppKey\<close>: an existing key file is read and decoded, whatever its length
  (a directory in its place makes the read throw); otherwise a fresh key is written.\<close>

definition getAppKey_fs :: "key \<Rightarrow> disk \<Rightarrow> keyfile outcome" where
  "getAppKey_fs fresh_key d =
     (if existsSync (keyPath d) False d then
        (case readFileSync (keyPath d) d of
           None \<Rightarrow> (Inl FsError, d)
         | Some (KeyText k) \<Rightarrow> (Inr k, d)
         | Some c \<Rightarrow> (Inr InvalidKey, d))
      else thenDo (writeFileSync (keyPath d) (KeyText (ValidKey fresh_key)) d)
             (\<lambda>_ d1. (Inr (ValidKey fresh_key), d1)))"

text \<open>\<^verbatim>\<open>readEncrypted\<close>: the whole body is inside the \<^verbatim>\<open>try\<close>. A file that cannot be read
  fails before \<^verbatim>\<open>decryptData\<close> runs; otherwise \<^verbatim>\<open>decryptData\<close> first fetches the key.\<close>

definition readEncrypted_fs :: "path \<Rightarrow> json \<Rightarrow> key \<Rightarrow> disk \<Rightarrow> json outcome" where
  "readEncrypted_fs filePath fallback fresh_key d =
     (case readFileSync filePath d of
        None \<Rightarrow> (Inr fallback, d)
      | Some raw \<Rightarrow>
          (case getAppKey_fs fresh_key d of
             (Inl e, d1) \<Rightarrow> (Inr fallback, d1)
           | (Inr k, d1) \<Rightarrow>
               (case raw of
                  EnvelopeText (Sealed k' body) \<Rightarrow>
                    if k = ValidKey k' then (Inr (readJSON (Some body) fallback), d1)
                    else (Inr fallback, d1)
                | _ \<Rightarrow> (Inr fallback, d1))))"

text \<open>\<^verbatim>\<open>writeEncrypted\<close>: \<^verbatim>\<open>ensureDir\<close>, then \<^verbatim>\<open>encryptData\<close> (which fetches the key and throws
  on a key of the wrong length), then the write; nothing is caught.\<close>

definition writeEncrypted_fs :: "path \<Rightarrow> json \<Rightarrow> key \<Rightarrow> disk \<Rightarrow> unit outcome" where
  "writeEncrypted_fs filePath v fresh_key d =
     thenDo (ensureDir (butlast filePath) False d) (\<lambda>_ d1.
     thenDo (getAppKey_fs fresh_key d1) (\<lambda>k d2.
       case k of
         InvalidKey \<Rightarrow> (Inl InvalidKeyLength, d2)
       | ValidKey k' \<Rightarrow> writeFileSync filePath (EnvelopeText (Sealed k' (Parses v))) d2))"

subsection \<open>Profile system\<close>

definition getProfiles_fs :: "int \<Rightarrow> disk \<Rightarrow> json outcome" where
  "getProfiles_fs now d =
     thenDo (readGlobalJSON ''profiles'' (JArr []) d) (\<lambda>profiles d1.
     thenDo (lengthIsZero profiles, d1) (\<lambda>isEmpty d2.
       if isEmpty then
         (let def = mkProfile ''default'' ''Default'' ''person'' now True
          in thenDo (writeGlobalJSON ''profiles'' (JArr [def]) d2) (\<lambda>_ d3. (Inr (JArr [def]), d3)))
       else (Inr profiles, d2)))"

text \<open>\<^verbatim>\<open>createProfile\<close>; \<open>stamp\<close> is the decimal text of \<^verbatim>\<open>Date.now()\<close> and \<open>rnd\<close> the random
  base-36 suffix that make up the new id, \<open>now\<close> the later clock value stored as
  \<^verbatim>\<open>createdAt\<close>, \<open>now0\<close> the clock value for \<^verbatim>\<open>getProfiles\<close>.\<close>

definition createProfile_fs ::
  "string \<Rightarrow> string \<Rightarrow> int \<Rightarrow> string \<Rightarrow> string \<Rightarrow> int \<Rightarrow> disk \<Rightarrow> json outcome" where
  "createProfile_fs name avatar now0 stamp rnd now d =
     thenDo (getProfiles_fs now0 d) (\<lambda>profiles d1.
       let profile = mkProfile (''profile-'' @ stamp @ ''-'' @ rnd) name avatar now False in
       thenDo (asArray profiles, d1) (\<lambda>ps d2.
       thenDo (writeGlobalJSON ''profiles'' (JArr (ps @ [profile])) d2) (\<lambda>_ d3. (Inr profile, d3))))"

text \<open>\<^verbatim>\<open>deleteProfile\<close>; the id goes into \<^verbatim>\<open>path.join\<close> as it comes, and what the path then
  names is removed with everything below it. \<open>now0\<close> and \<open>now1\<close> serve the two calls of
  \<^verbatim>\<open>getProfiles\<close>, \<open>env\<close> is the file system's answer should the path lie outside the
  user-data directory.\<close>

definition deleteProfile_fs :: "string \<Rightarrow> int \<Rightarrow> int \<Rightarrow> rm_outcome \<Rightarrow> disk \<Rightarrow> json outcome" where
  "deleteProfile_fs pid now0 now1 env d =
     (if pid = ''default'' then getProfiles_fs now0 d
      else
        thenDo (getProfiles_fs now0 d) (\<lambda>all d1.
        thenDo (asArray all, d1) (\<lambda>ps d2.
        thenDo (filter_js (fieldIsNot ''id'' pid) ps, d2) (\<lambda>profiles d3.
        thenDo (writeGlobalJSON ''profiles'' (JArr profiles) d3) (\<lambda>_ d4.
          let dir = joinPath (baseDataDir d4 @ [''profiles'']) pid in
          thenDo (if existsSync dir (trailingSlash pid) d4 then rmSync dir env d4 else (Inr (), d4))
            (\<lambda>_ d5. getProfiles_fs now1
                       (if activeId d5 = pid then d5\<lparr> activeId := ''default'' \<rparr> else d5)))))))"

definition switchProfile_fs :: "string \<Rightarrow> int \<Rightarrow> disk \<Rightarrow> json outcome" where
  "switchProfile_fs pid now0 d =
     thenDo (getProfiles_fs now0 d) (\<lambda>profiles d1.
     thenDo (asArray profiles, d1) (\<lambda>ps d2.
     thenDo (find_js (fieldIs ''id'' pid) ps, d2) (\<lambda>found d3.
       case found of
         None \<Rightarrow> (Inr JNull, d3)
       | Some profile \<Rightarrow> (Inr profile, d3\<lparr> activeId := pid \<rparr>))))"

text \<open>\<^verbatim>\<open>getActiveProfile\<close>; \<^verbatim>\<open>profiles[0]\<close> of an empty array is \<^verbatim>\<open>undefined\<close> (\<open>None\<close>).\<close>

definition getActiveProfile_fs :: "int \<Rightarrow> disk \<Rightarrow> json option outcome" where
  "getActiveProfile_fs now0 d =
     thenDo (getProfiles_fs now0 d) (\<lambda>profiles d1.
     thenDo (asArray profiles, d1) (\<lambda>ps d2.
     thenDo (find_js (fieldIs ''id'' (activeId d2)) ps, d2) (\<lambda>found d3.
       case found of
         Some profile \<Rightarrow> (Inr (Some profile), d3)
       | None \<Rightarrow> (Inr (case ps of [] \<Rightarrow> None | p # _ \<Rightarrow> Some p), d3))))"

subsection \<open>Auth system\<close>

definition authStatePath :: "disk \<Rightarrow> path" where
  "authStatePath d = baseDataDir d @ [''auth.enc'']"

definition credentialsPath :: "disk \<Rightarrow> path" where
  "credentialsPath d = baseDataDir d @ [''credentials.enc'']"

definition getAuthState_fs :: "key \<Rightarrow> disk \<Rightarrow> json outcome" where
  "getAuthState_fs fresh_key d = readEncrypted_fs (authStatePath d) loggedOut fresh_key d"

definition saveAuthState_fs :: "json \<Rightarrow> key \<Rightarrow> disk \<Rightarrow> unit outcome" where
  "saveAuthState_fs st fresh_key d = writeEncrypted_fs (authStatePath d) st fresh_key d"

definition registerUser_fs ::
  "(string \<Rightarrow> string \<Rightarrow> string) \<Rightarrow> string \<Rightarrow> string \<Rightarrow> entropy \<Rightarrow> disk \<Rightarrow> json outcome" where
  "registerUser_fs kdf email password r d =
     thenDo (readEncrypted_fs (credentialsPath d) (JArr []) (rand_key r) d) (\<lambda>creds d1.
     thenDo (asArray creds, d1) (\<lambda>cs d2.
     thenDo (some_js (fieldIs ''email'' email) cs, d2) (\<lambda>taken d3.
       if taken then (Inr (mkResult False (Some ''Email already registered'')), d3)
       else
         (let passwordHash = kdf password (rand_salt r);
              cs' = cs @ [mkCredentials email passwordHash (rand_salt r) (clock r)] in
          thenDo (writeEncrypted_fs (credentialsPath d3) (JArr cs') (rand_key r) d3) (\<lambda>_ d4.
          thenDo (saveAuthState_fs
                    (mkAuthState True (JStr email) (JStr (rand_token r)) (JStr (activeId d4)))
                    (rand_key r) d4) (\<lambda>_ d5.
            (Inr (mkResult True None), d5)))))))"

definition loginUser_fs ::
  "(string \<Rightarrow> string \<Rightarrow> string) \<Rightarrow> string \<Rightarrow> string \<Rightarrow> entropy \<Rightarrow> disk \<Rightarrow> json outcome" where
  "loginUser_fs kdf email password r d =
     thenDo (readEncrypted_fs (credentialsPath d) (JArr []) (rand_key r) d) (\<lambda>creds d1.
     thenDo (asArray creds, d1) (\<lambda>cs d2.
     thenDo (find_js (fieldIs ''email'' email) cs, d2) (\<lambda>found d3.
       case found of
         None \<Rightarrow> (Inr (mkResult False (Some ''Invalid email or password'')), d3)
       | Some user \<Rightarrow>
           (case getProp user ''salt'' of
              Inl e \<Rightarrow> (Inl e, d3)
            | Inr (Some (JStr user_salt)) \<Rightarrow>
                if getProp user ''passwordHash'' \<noteq> Inr (Some (JStr (kdf password user_salt)))
                then (Inr (mkResult False (Some ''Invalid email or password'')), d3)
                else
                  thenDo (saveAuthState_fs
                            (mkAuthState True (JStr email) (JStr (rand_token r)) (JStr (activeId d3)))
                            (rand_key r) d3) (\<lambda>_ d4.
                    (Inr (mkResult True None), d4))
            | Inr _ \<Rightarrow> (Inl TypeError, d3)))))"

definition logoutUser_fs :: "key \<Rightarrow> disk \<Rightarrow> unit outcome" where
  "logoutUser_fs fresh_key d = saveAuthState_fs loggedOut fresh_key d"

subsection \<open>Domain stores of the profile-aware module\<close>

definition getBookmarks_fs :: "disk \<Rightarrow> json outcome" where
  "getBookmarks_fs d = readProfileJSON ''bookmarks'' (JArr []) d"

definition addBookmark_fs :: "string \<Rightarrow> string \<Rightarrow> int \<Rightarrow> disk \<Rightarrow> json outcome" where
  "addBookmark_fs url title now d =
     thenDo (getBookmarks_fs d) (\<lambda>v d1.
     thenDo (asArray v, d1) (\<lambda>bookmarks d2.
     thenDo (some_js (fieldIs ''url'' url) bookmarks, d2) (\<lambda>present d3.
       if \<not> present then
         (let bookmarks' = bookmarks @ [mkBookmark url title now]
          in thenDo (writeProfileJSON ''bookmarks'' (JArr bookmarks') d3)
               (\<lambda>_ d4. (Inr (JArr bookmarks'), d4)))
       else (Inr (JArr bookmarks), d3))))"

definition removeBookmark_fs :: "string \<Rightarrow> disk \<Rightarrow> json outcome" where
  "removeBookmark_fs url d =
     thenDo (getBookmarks_fs d) (\<lambda>v d1.
     thenDo (asArray v, d1) (\<lambda>all d2.
     thenDo (filter_js (fieldIsNot ''url'' url) all, d2) (\<lambda>bookmarks d3.
     thenDo (writeProfileJSON ''bookmarks'' (JArr bookmarks) d3) (\<lambda>_ d4.
       (Inr (JArr bookmarks), d4)))))"

definition isBookmarked_fs :: "string \<Rightarrow> disk \<Rightarrow> bool outcome" where
  "isBookmarked_fs url d =
     thenDo (getBookmarks_fs d) (\<lambda>v d1.
     thenDo (asArray v, d1) (\<lambda>bookmarks d2.
       (some_js (fieldIs ''url'' url) bookmarks, d2)))"

definition getHistory_fs :: "disk \<Rightarrow> json outcome" where
  "getHistory_fs d = readProfileJSON ''history'' (JArr []) d"

definition addHistoryEntry_fs :: "string \<Rightarrow> string \<Rightarrow> int \<Rightarrow> disk \<Rightarrow> unit outcome" where
  "addHistoryEntry_fs url title now d =
     thenDo (getHistory_fs d) (\<lambda>v d1.
     thenDo (asArray v, d1) (\<lambda>old d2.
       let history = mkHistoryEntry url title now # old;
           history' = (if length history > 1000 then take 1000 history else history)
       in writeProfileJSON ''history'' (JArr history') d2))"

definition clearHistory_fs :: "disk \<Rightarrow> unit outcome" where
  "clearHistory_fs d = writeProfileJSON ''history'' (JArr []) d"

definition searchHistory_fs :: "(string \<Rightarrow> string) \<Rightarrow> string \<Rightarrow> disk \<Rightarrow> json outcome" where
  "searchHistory_fs toLowerCase query d =
     (let q = toLowerCase query in
      thenDo (getHistory_fs d) (\<lambda>v d1.
      thenDo (asArray v, d1) (\<lambda>history d2.
      thenDo (filter_js (historyMatches toLowerCase q) history, d2) (\<lambda>hits d3.
        (Inr (JArr hits), d3)))))"

definition getSettings_fs :: "disk \<Rightarrow> json outcome" where
  "getSettings_fs d =
     thenDo (readProfileJSON ''settings'' (JObj []) d) (\<lambda>v d1.
       (Inr (JObj (spreadOver (spreadOver [] (JObj defaultSettings)) v)), d1))"

definition updateSettings_fs :: "json \<Rightarrow> disk \<Rightarrow> json outcome" where
  "updateSettings_fs partial d =
     thenDo (getSettings_fs d) (\<lambda>current d1.
       let settings = JObj (spreadOver (spreadOver [] current) partial) in
       thenDo (writeProfileJSON ''settings'' settings d1) (\<lambda>_ d2. (Inr settings, d2)))"

definition saveSession_fs :: "SessionTab list \<Rightarrow> disk \<Rightarrow> unit outcome" where
  "saveSession_fs sessionTabs d =
     writeProfileJSON ''session'' (JArr (map SessionTab_json sessionTabs)) d"

definition getSession_fs :: "disk \<Rightarrow> json outcome" where
  "getSession_fs d = readProfileJSON ''session'' (JArr []) d"

definition getDownloads_fs :: "disk \<Rightarrow> json outcome" where
  "getDownloads_fs d = readProfileJSON ''downloads'' (JArr []) d"

definition saveDownload_fs :: "DownloadItem \<Rightarrow> disk \<Rightarrow> unit outcome" where
  "saveDownload_fs item d =
     thenDo (getDownloads_fs d) (\<lambda>v d1.
     thenDo (asArray v, d1) (\<lambda>old d2.
     thenDo (findIndex_js (fieldIs ''id'' (ident item)) old, d2) (\<lambda>found d3.
       let downloads = (case found of
                          Some idx \<Rightarrow> old[idx := DownloadItem_json item]
                        | None \<Rightarrow> DownloadItem_json item # old);
           downloads' = (if length downloads > 100 then take 100 downloads else downloads)
       in writeProfileJSON ''downloads'' (JArr downloads') d3)))"

definition clearDownloads_fs :: "disk \<Rightarrow> unit outcome" where
  "clearDownloads_fs d = writeProfileJSON ''downloads'' (JArr []) d"

subsection \<open>The plain storage module\<close>

text \<open>Here \<^verbatim>\<open>filePath\<close>, and with it \<^verbatim>\<open>ensureDir\<close>, runs inside the \<^verbatim>\<open>try\<close> of \<^verbatim>\<open>readJSON\<close>,
  so a read never throws; \<^verbatim>\<open>writeJSON\<close> catches nothing.\<close>

definition storage_filePath :: "string \<Rightarrow> disk \<Rightarrow> path outcome" where
  "storage_filePath name d =
     thenDo (ensureDir (baseDataDir d) False d) (\<lambda>_ d1. (Inr (baseDataDir d1 @ [name @ ''.json'']), d1))"

definition storage_readJSON_fs :: "string \<Rightarrow> json \<Rightarrow> disk \<Rightarrow> json outcome" where
  "storage_readJSON_fs name fallback d =
     (case storage_filePath name d of
        (Inl e, d1) \<Rightarrow> (Inr fallback, d1)
      | (Inr filePath, d1) \<Rightarrow> (Inr (readJSON_fs filePath fallback d1), d1))"

definition storage_writeJSON_fs :: "string \<Rightarrow> json \<Rightarrow> disk \<Rightarrow> unit outcome" where
  "storage_writeJSON_fs name v d =
     thenDo (storage_filePath name d) (\<lambda>filePath d1. writeFileSync filePath (JsonText (Parses v)) d1)"

definition storage_getBookmarks_fs :: "disk \<Rightarrow> json outcome" where
  "storage_getBookmarks_fs d = storage_readJSON_fs ''bookmarks'' (JArr []) d"

definition storage_addBookmark_fs :: "string \<Rightarrow> string \<Rightarrow> int \<Rightarrow> disk \<Rightarrow> json outcome" where
  "storage_addBookmark_fs url title now d =
     thenDo (storage_getBookmarks_fs d) (\<lambda>v d1.
     thenDo (asArray v, d1) (\<lambda>bookmarks d2.
     thenDo (some_js (fieldIs ''url'' url) bookmarks, d2) (\<lambda>present d3.
       if \<not> present then
         (let bookmarks' = bookmarks @ [mkBookmark url title now]
          in thenDo (storage_writeJSON_fs ''bookmarks'' (JArr bookmarks') d3)
               (\<lambda>_ d4. (Inr (JArr bookmarks'), d4)))
       else (Inr (JArr bookmarks), d3))))"

definition storage_removeBookmark_fs :: "string \<Rightarrow> disk \<Rightarrow> json outcome" where
  "storage_removeBookmark_fs url d =
     thenDo (storage_getBookmarks_fs d) (\<lambda>v d1.
     thenDo (asArray v, d1) (\<lambda>all d2.
     thenDo (filter_js (fieldIsNot ''url'' url) all, d2) (\<lambda>bookmarks d3.
     thenDo (storage_writeJSON_fs ''bookmarks'' (JArr bookmarks) d3) (\<lambda>_ d4.
       (Inr (JArr bookmarks), d4)))))"

definition storage_isBookmarked_fs :: "string \<Rightarrow> disk \<Rightarrow> bool outcome" where
  "storage_isBookmarked_fs url d =
     thenDo (storage_getBookmarks_fs d) (\<lambda>v d1.
     thenDo (asArray v, d1) (\<lambda>bookmarks d2.
       (some_js (fieldIs ''url'' url) bookmarks, d2)))"

definition storage_getHistory_fs :: "disk \<Rightarrow> json outcome" where
  "storage_getHistory_fs d = storage_readJSON_fs ''history'' (JArr []) d"

definition storage_addHistoryEntry_fs :: "string \<Rightarrow> string \<Rightarrow> int \<Rightarrow> disk \<Rightarrow> unit outcome" where
  "storage_addHistoryEntry_fs url title now d =
     thenDo (storage_getHistory_fs d) (\<lambda>v d1.
     thenDo (asArray v, d1) (\<lambda>old d2.
       let history = mkHistoryEntry url title now # old;
           history' = (if length history > 1000 then take 1000 history else history)
       in storage_writeJSON_fs ''history'' (JArr history') d2))"

definition storage_clearHistory_fs :: "disk \<Rightarrow> unit outcome" where
  "storage_clearHistory_fs d = storage_writeJSON_fs ''history'' (JArr []) d"

definition storage_searchHistory_fs :: "(string \<Rightarrow> string) \<Rightarrow> string \<Rightarrow> disk \<Rightarrow> json outcome" where
  "storage_searchHistory_fs toLowerCase query d =
     (let q = toLowerCase query in
      thenDo (storage_getHistory_fs d) (\<lambda>v d1.
      thenDo (asArray v, d1) (\<lambda>history d2.
      thenDo (filter_js (historyMatches toLowerCase q) history, d2) (\<lambda>hits d3.
        (Inr (JArr hits), d3)))))"

definition storage_getSettings_fs :: "disk \<Rightarrow> json outcome" where
  "storage_getSettings_fs d =
     thenDo (storage_readJSON_fs ''settings'' (JObj []) d) (\<lambda>v d1.
       (Inr (JObj (spreadOver (spreadOver [] (JObj storage_defaultSettings)) v)), d1))"

definition storage_updateSettings_fs :: "json \<Rightarrow> disk \<Rightarrow> json outcome" where
  "storage_updateSettings_fs partial d =
     thenDo (storage_getSettings_fs d) (\<lambda>current d1.
       let settings = JObj (spreadOver (spreadOver [] current) partial) in
       thenDo (storage_writeJSON_fs ''settings'' settings d1) (\<lambda>_ d2. (Inr settings, d2)))"

definition storage_saveSession_fs :: "SessionTab list \<Rightarrow> disk \<Rightarrow> unit outcome" where
  "storage_saveSession_fs sessionTabs d =
     storage_writeJSON_fs ''session'' (JArr (map SessionTab_json sessionTabs)) d"

definition storage_getSession_fs :: "disk \<Rightarrow> json outcome" where
  "storage_getSession_fs d = storage_readJSON_fs ''session'' (JArr []) d"

definition storage_getDownloads_fs :: "disk \<Rightarrow> json outcome" where
  "storage_getDownloads_fs d = storage_readJSON_fs ''downloads'' (JArr []) d"

definition storage_saveDownload_fs :: "DownloadItem \<Rightarrow> disk \<Rightarrow> unit outcome" where
  "storage_saveDownload_fs item d =
     thenDo (storage_getDownloads_fs d) (\<lambda>v d1.
     thenDo (asArray v, d1) (\<lambda>old d2.
     thenDo (findIndex_js (fieldIs ''id'' (ident item)) old, d2) (\<lambda>found d3.
       let downloads = (case found of
                          Some idx \<Rightarrow> old[idx := DownloadItem_json item]
                        | None \<Rightarrow> DownloadItem_json item # old);
           downloads' = (if length downloads > 100 then take 100 downloads else downloads)
       in storage_writeJSON_fs ''downloads'' (JArr downloads') d3)))"

definition storage_clearDownloads_fs :: "disk \<Rightarrow> unit outcome" where
  "storage_clearDownloads_fs d = storage_writeJSON_fs ''downloads'' (JArr []) d"


section \<open>Notions used to state the properties\<close>

text \<open>Adding a sequence of history entries, oldest first, one call of
  \<^verbatim>\<open>addHistoryEntry\<close> each.\<close>

fun addHistoryEntries :: "HistoryEntry list \<Rightarrow> store \<Rightarrow> error + store" where
  "addHistoryEntries [] s = Inr s"
| "addHistoryEntries (e # es) s =
     (case addHistoryEntry (he_url e) (he_title e) (visitedAt e) s of
        Inl err \<Rightarrow> Inl err
      | Inr s' \<Rightarrow> addHistoryEntries es s')"

text \<open>The index of the first element that satisfies a predicate.\<close>

fun firstIndex :: "('a \<Rightarrow> bool) \<Rightarrow> 'a list \<Rightarrow> nat option" where
  "firstIndex p [] = None"
| "firstIndex p (x # xs) = (if p x then Some 0 else map_option Suc (firstIndex p xs))"

text \<open>What \<^verbatim>\<open>saveDownload\<close> does to a list of well-formed download items.\<close>

definition saveDownload_list :: "DownloadItem \<Rightarrow> DownloadItem list \<Rightarrow> DownloadItem list" where
  "saveDownload_list item ds =
     take 100 (case firstIndex (\<lambda>d. ident d = ident item) ds of
                 Some idx \<Rightarrow> ds[idx := item]
               | None \<Rightarrow> item # ds)"

text \<open>The invariants the data model gives a download list (ids unique, at most 100
  entries) and a bookmark list (urls unique).\<close>

definition downloads_inv :: "DownloadItem list \<Rightarrow> bool" where
  "downloads_inv ds \<longleftrightarrow> distinct (map ident ds) \<and> length ds \<le> 100"

definition bookmarks_inv :: "Bookmark list \<Rightarrow> bool" where
  "bookmarks_inv bs \<longleftrightarrow> distinct (map bm_url bs)"

text \<open>Stores and items for concrete instances.\<close>

definition bookmark0 :: Bookmark where
  "bookmark0 = \<lparr> bm_url = ''https://a.example'', bm_title = ''A'', addedAt = 1 \<rparr>"

definition download0 :: DownloadItem where
  "download0 = \<lparr> ident = ''dl-1-ab12'', filename = ''f.zip'', durl = ''https://a.example/f.zip'',
                 savePath = ''/tmp/f.zip'', totalBytes = 10, receivedBytes = 0,
                 dstate = progressing, startedAt = 1 \<rparr>"

definition entries1001 :: "HistoryEntry list" where
  "entries1001 =
     map (\<lambda>i. \<lparr> he_url = ''https://a.example'', he_title = ''A'', visitedAt = int i \<rparr>) [0..<1001]"

text \<open>Whether the field \<open>k\<close> of a value is the string \<open>v\<close>, and whether a value is an
  object.\<close>

definition fieldEq :: "string \<Rightarrow> string \<Rightarrow> json \<Rightarrow> bool" where
  "fieldEq k v x \<longleftrightarrow> getProp x k = Inr (Some (JStr v))"

fun isObject :: "json \<Rightarrow> bool" where
  "isObject (JObj kvs) = True"
| "isObject v = False"

text \<open>The operations the two storage modules share, with the values each returns
  (\<open>None\<close> for \<^verbatim>\<open>void\<close>): \<open>run_storage\<close> runs one in the plain module, \<open>run_profile\<close>
  in the profile-aware module.\<close>

datatype store_op =
    GetBookmarks
  | AddBookmark string string int
  | RemoveBookmark string
  | IsBookmarked string
  | GetHistory
  | AddHistoryEntry string string int
  | ClearHistory
  | SearchHistory string
  | SaveSession "SessionTab list"
  | GetSession
  | GetDownloads
  | SaveDownload DownloadItem
  | ClearDownloads






definition defaultProfile :: "int \<Rightarrow> Profile" where
  "defaultProfile now =
     \<lparr> profile_id = ''default'', profile_name = ''Default'', profile_avatar = ''person'',
       profile_createdAt = now, profile_isDefault = True \<rparr>"

definition settings_with_theme :: store where
  "settings_with_theme =
     writeProfile ''settings''
       (JObj [(''adBlockEnabled'', JBool False), (''theme'', JStr ''dark'')]) fresh"

text \<open>The key in force once the key file has been read or created.\<close>

definition appKey :: "key \<Rightarrow> store \<Rightarrow> key" where
  "appKey fk s = (case keyFile s of Some (ValidKey k) \<Rightarrow> k | _ \<Rightarrow> fk)"

text \<open>\<open>kdf\<close> for concrete instances: any function that separates the two passwords does.\<close>

definition concat_kdf :: "string \<Rightarrow> string \<Rightarrow> string" where
  "concat_kdf password salt = password @ '':'' @ salt"

definition entropy0 :: entropy where
  "entropy0 = \<lparr> rand_key = replicate 32 42, rand_salt = ''00ff'', rand_token = ''a1b2'', clock = 1 \<rparr>"

text \<open>What is asked of AES-256-GCM: with a 32-byte key and a 16-byte nonce, encryption
  succeeds and decryption under the same key, nonce and tag gives the plaintext back.\<close>

definition cipher_correct :: "cipher \<Rightarrow> bool" where
  "cipher_correct c \<longleftrightarrow>
     (\<forall>key iv plain. length key = 32 \<and> length iv = 16 \<longrightarrow>
        (\<exists>encrypted tag. encrypt_gcm c key iv plain = Some (encrypted, tag)
                        \<and> decrypt_gcm c key iv tag encrypted = Some plain))"

text \<open>The key file is missing or decodes to 32 bytes.\<close>

definition keyFile_ok :: "jsstring option \<Rightarrow> bool" where
  "keyFile_ok kf = (case kf of None \<Rightarrow> True | Some t \<Rightarrow> length (hexDecode (trim t)) = 32)"

text \<open>\<^verbatim>\<open>decryptData(encryptData(x))\<close>, the key file threaded through both calls.\<close>

definition roundTrip ::
  "cipher \<Rightarrow> bytes \<Rightarrow> bytes \<Rightarrow> bytes \<Rightarrow> jsstring \<Rightarrow> jsstring option \<Rightarrow> error + jsstring" where
  "roundTrip c random32 random32' iv x kf =
     (case encryptData c random32 iv x kf of
        Inl e \<Rightarrow> Inl e
      | Inr (envelope, kf1) \<Rightarrow>
          (case decryptData c random32' envelope kf1 of
             Inl e \<Rightarrow> Inl e
           | Inr (y, kf2) \<Rightarrow> Inr y))"

text \<open>A string is well-formed when every surrogate code unit is part of a pair.\<close>

fun wellFormed :: "jsstring \<Rightarrow> bool" where
  "wellFormed [] = True"
| "wellFormed [u] = (\<not> isHigh u \<and> \<not> isLow u)"
| "wellFormed (u # v # rest) =
     (if isHigh u then isLow v \<and> wellFormed rest
      else \<not> isLow u \<and> wellFormed (v # rest))"

text \<open>A cipher for concrete instances.\<close>

definition demo_cipher :: cipher where
  "demo_cipher =
     \<lparr> encrypt_gcm = (\<lambda>key iv plain.
         if length key = 32 then Some (map (\<lambda>b. b + 1) plain, take 16 key) else None),
       decrypt_gcm = (\<lambda>key iv tag encrypted.
         if length key = 32 \<and> tag = take 16 key then Some (map (\<lambda>b. b - 1) encrypted) else None) \<rparr>"

text \<open>How the stores' view of the key file arises from its text.\<close>

definition key_of :: "bytes \<Rightarrow> keyfile" where
  "key_of k = (if length k = 32 then ValidKey k else InvalidKey)"

definition keyfile_of :: "jsstring \<Rightarrow> keyfile" where
  "keyfile_of t = key_of (hexDecode (trim t))"

section \<open>Notions for the file-system view\<close>

text \<open>A disk is a tree: the parent of every node is a directory. Every disk a real file
  system can show is one, and every call into \<^verbatim>\<open>fs\<close> keeps it one.\<close>

definition treeLike :: "disk \<Rightarrow> bool" where
  "treeLike d \<longleftrightarrow> (\<forall>p c. nodes d (p @ [c]) \<noteq> None \<longrightarrow> nodes d p = Some Dir)"

text \<open>A directory can be used: its path is valid and no file lies at it or on the way to
  it (it need not exist yet). It can hold the files named: the path of each is valid and
  no directory lies where it goes.\<close>

definition dirReady :: "path \<Rightarrow> disk \<Rightarrow> bool" where
  "dirReady dir d \<longleftrightarrow> validPath d dir \<and> (\<forall>q. prefix q dir \<longrightarrow> \<not> isFile (nodes d q))"

definition canHold :: "path \<Rightarrow> string list \<Rightarrow> disk \<Rightarrow> bool" where
  "canHold dir files d \<longleftrightarrow>
     dirReady dir d
   \<and> list_all (\<lambda>f. validPath d (dir @ [f]) \<and> \<not> isDir (nodes d (dir @ [f]))) files"

text \<open>The disk after \<^verbatim>\<open>ensureDir(dir)\<close> has succeeded.\<close>

definition ensured :: "path \<Rightarrow> disk \<Rightarrow> disk" where
  "ensured dir d = d\<lparr> nodes := (\<lambda>q. if prefix q dir then Some Dir else nodes d q) \<rparr>"

text \<open>The directory of the active profile, and the names of the documents a profile
  directory and the data directory hold.\<close>

definition activeDir :: "disk \<Rightarrow> path" where
  "activeDir d = joinPath (baseDataDir d @ [''profiles'']) (activeId d)"

definition profileFiles :: "string list" where
  "profileFiles = [''bookmarks.json'', ''history.json'', ''settings.json'', ''session.json'',
                   ''downloads.json'']"

definition baseFiles :: "string list" where
  "baseFiles = ''profiles.json'' # ''auth.enc'' # ''credentials.enc'' # profileFiles"

text \<open>The operations of the profile system, each with the clock and random values it
  draws and, for \<^verbatim>\<open>deleteProfile\<close>, the answer of the file system; \<open>run_profiles\<close> gives the
  value returned (\<open>None\<close> for \<^verbatim>\<open>undefined\<close>) and the disk left behind.\<close>

datatype profile_op =
    GetProfiles int
  | CreateProfile string string int string string int
  | DeleteProfile string int int rm_outcome
  | SwitchProfile string int
  | GetActiveProfile int

definition returning_fs :: "json outcome \<Rightarrow> json option outcome" where
  "returning_fs r = (map_sum id Some (fst r), snd r)"

definition returning_void_fs :: "unit outcome \<Rightarrow> json option outcome" where
  "returning_void_fs r = (map_sum id (\<lambda>_. None) (fst r), snd r)"

definition returning_bool_fs :: "bool outcome \<Rightarrow> json option outcome" where
  "returning_bool_fs r = (map_sum id (\<lambda>b. Some (JBool b)) (fst r), snd r)"

fun run_profiles :: "profile_op \<Rightarrow> disk \<Rightarrow> json option outcome" where
  "run_profiles (GetProfiles now) d = returning_fs (getProfiles_fs now d)"
| "run_profiles (CreateProfile name avatar now0 stamp rnd now) d =
     returning_fs (createProfile_fs name avatar now0 stamp rnd now d)"
| "run_profiles (DeleteProfile pid now0 now1 env) d = returning_fs (deleteProfile_fs pid now0 now1 env d)"
| "run_profiles (SwitchProfile pid now) d = returning_fs (switchProfile_fs pid now d)"
| "run_profiles (GetActiveProfile now) d = getActiveProfile_fs now d"

text \<open>A fresh data root: the data directory does not exist yet, nothing keeps it from
  being created and from holding the profile document, and the process starts on the
  default profile. What else the disk holds is open.\<close>

definition fresh_root :: "disk \<Rightarrow> bool" where
  "fresh_root d \<longleftrightarrow>
     treeLike d \<and> canHold (baseDataDir d) [''profiles.json''] d \<and> nodes d (baseDataDir d) = None
   \<and> activeId d = ''default''"

text \<open>The disks the profile operations reach from a fresh data root; an operation that
  throws leaves a disk too.\<close>

inductive reachable :: "disk \<Rightarrow> bool" where
  fresh: "fresh_root d \<Longrightarrow> reachable d"
| step: "reachable d \<Longrightarrow> reachable (snd (run_profiles opn d))"

text \<open>The profile document as \<^verbatim>\<open>getProfiles\<close> reads it.\<close>

definition profilesDoc :: "disk \<Rightarrow> json" where
  "profilesDoc d = readJSON_fs (baseDataDir d @ [''profiles.json'']) (JArr []) d"

text \<open>The data directory can be used, and the profile document is missing, unreadable or
  empty, or it is an array of objects of which exactly one has the id \<^verbatim>\<open>"default"\<close>.\<close>

definition profiles_inv :: "disk \<Rightarrow> bool" where
  "profiles_inv d \<longleftrightarrow>
     treeLike d \<and> canHold (baseDataDir d) [''profiles.json''] d
   \<and> (case profilesDoc d of
        JArr ps \<Rightarrow> list_all isObject ps
                   \<and> (ps = [] \<or> length (filter (fieldEq ''id'' ''default'') ps) = 1)
      | _ \<Rightarrow> False)"

text \<open>Every public operation of the two modules, with the clock and random values it
  draws, and what it returns (\<open>None\<close> for \<^verbatim>\<open>void\<close> and \<^verbatim>\<open>undefined\<close>): those of the
  profile-aware module first, then those of the plain module. \<open>kdf\<close> and \<open>lc\<close> stand for
  \<^verbatim>\<open>pbkdf2Sync\<close> and \<^verbatim>\<open>toLowerCase\<close>.\<close>

fun run_profile_fs :: "(string \<Rightarrow> string) \<Rightarrow> store_op \<Rightarrow> disk \<Rightarrow> json option outcome" where
  "run_profile_fs lc GetBookmarks d = returning_fs (getBookmarks_fs d)"
| "run_profile_fs lc (AddBookmark url title now) d = returning_fs (addBookmark_fs url title now d)"
| "run_profile_fs lc (RemoveBookmark url) d = returning_fs (removeBookmark_fs url d)"
| "run_profile_fs lc (IsBookmarked url) d = returning_bool_fs (isBookmarked_fs url d)"
| "run_profile_fs lc GetHistory d = returning_fs (getHistory_fs d)"
| "run_profile_fs lc (AddHistoryEntry url title now) d =
     returning_void_fs (addHistoryEntry_fs url title now d)"
| "run_profile_fs lc ClearHistory d = returning_void_fs (clearHistory_fs d)"
| "run_profile_fs lc (SearchHistory query) d = returning_fs (searchHistory_fs lc query d)"
| "run_profile_fs lc (SaveSession tabs) d = returning_void_fs (saveSession_fs tabs d)"
| "run_profile_fs lc GetSession d = returning_fs (getSession_fs d)"
| "run_profile_fs lc GetDownloads d = returning_fs (getDownloads_fs d)"
| "run_profile_fs lc (SaveDownload item) d = returning_void_fs (saveDownload_fs item d)"
| "run_profile_fs lc ClearDownloads d = returning_void_fs (clearDownloads_fs d)"

fun run_storage_fs :: "(string \<Rightarrow> string) \<Rightarrow> store_op \<Rightarrow> disk \<Rightarrow> json option outcome" where
  "run_storage_fs lc GetBookmarks d = returning_fs (storage_getBookmarks_fs d)"
| "run_storage_fs lc (AddBookmark url title now) d =
     returning_fs (storage_addBookmark_fs url title now d)"
| "run_storage_fs lc (RemoveBookmark url) d = returning_fs (storage_removeBookmark_fs url d)"
| "run_storage_fs lc (IsBookmarked url) d = returning_bool_fs (storage_isBookmarked_fs url d)"
| "run_storage_fs lc GetHistory d = returning_fs (storage_getHistory_fs d)"
| "run_storage_fs lc (AddHistoryEntry url title now) d =
     returning_void_fs (storage_addHistoryEntry_fs url title now d)"
| "run_storage_fs lc ClearHistory d = returning_void_fs (storage_clearHistory_fs d)"
| "run_storage_fs lc (SearchHistory query) d = returning_fs (storage_searchHistory_fs lc query d)"
| "run_storage_fs lc (SaveSession tabs) d = returning_void_fs (storage_saveSession_fs tabs d)"
| "run_storage_fs lc GetSession d = returning_fs (storage_getSession_fs d)"
| "run_storage_fs lc GetDownloads d = returning_fs (storage_getDownloads_fs d)"
| "run_storage_fs lc (SaveDownload item) d = returning_void_fs (storage_saveDownload_fs item d)"
| "run_storage_fs lc ClearDownloads d = returning_void_fs (storage_clearDownloads_fs d)"

datatype api_op =
    Store store_op
  | GetSettings
  | UpdateSettings json
  | Profiles profile_op
  | GetAuthState key
  | RegisterUser string string entropy
  | LoginUser string string entropy
  | LogoutUser key
  | GetSSOProviders
  | Storage store_op
  | StorageGetSettings
  | StorageUpdateSettings json

fun api_run ::
  "(string \<Rightarrow> string \<Rightarrow> string) \<Rightarrow> (string \<Rightarrow> string) \<Rightarrow> api_op \<Rightarrow> disk \<Rightarrow> json option outcome" where
  "api_run kdf lc (Store opn) d = run_profile_fs lc opn d"
| "api_run kdf lc GetSettings d = returning_fs (getSettings_fs d)"
| "api_run kdf lc (UpdateSettings partial) d = returning_fs (updateSettings_fs partial d)"
| "api_run kdf lc (Profiles opn) d = run_profiles opn d"
| "api_run kdf lc (GetAuthState fk) d = returning_fs (getAuthState_fs fk d)"
| "api_run kdf lc (RegisterUser email password r) d = returning_fs (registerUser_fs kdf email password r d)"
| "api_run kdf lc (LoginUser email password r) d = returning_fs (loginUser_fs kdf email password r d)"
| "api_run kdf lc (LogoutUser fk) d = returning_void_fs (logoutUser_fs fk d)"
| "api_run kdf lc GetSSOProviders d = (Inr (Some getSSOProviders), d)"
| "api_run kdf lc (Storage opn) d = run_storage_fs lc opn d"
| "api_run kdf lc StorageGetSettings d = returning_fs (storage_getSettings_fs d)"
| "api_run kdf lc (StorageUpdateSettings partial) d = returning_fs (storage_updateSettings_fs partial d)"

text \<open>The shapes an operation can work with. An array method needs an array, and the
  callbacks read a property of each element, which only \<^verbatim>\<open>null\<close> refuses. The filter of
  \<^verbatim>\<open>searchHistory\<close> calls \<^verbatim>\<open>toLowerCase\<close> on \<^verbatim>\<open>url\<close> and \<^verbatim>\<open>title\<close>, so both have to be strings.
  \<^verbatim>\<open>loginUser\<close> hands the \<^verbatim>\<open>salt\<close> of the entry it finds to \<^verbatim>\<open>pbkdf2Sync\<close>, and it can find any
  entry whose \<^verbatim>\<open>email\<close> is a string. \<^verbatim>\<open>getProfiles\<close> replaces whatever has \<^verbatim>\<open>length\<close> zero by
  the default list before anything else looks at it.\<close>

fun isArrayOf :: "(json \<Rightarrow> bool) \<Rightarrow> json \<Rightarrow> bool" where
  "isArrayOf p (JArr xs) = list_all p xs"
| "isArrayOf p v = False"

definition notNull :: "json \<Rightarrow> bool" where
  "notNull x \<longleftrightarrow> x \<noteq> JNull"

definition hasString :: "string \<Rightarrow> json \<Rightarrow> bool" where
  "hasString k x = (case getProp x k of Inr (Some (JStr v)) \<Rightarrow> True | _ \<Rightarrow> False)"

definition historyShape :: "json \<Rightarrow> bool" where
  "historyShape h \<longleftrightarrow> hasString ''url'' h \<and> hasString ''title'' h"

definition credentialShape :: "json \<Rightarrow> bool" where
  "credentialShape c \<longleftrightarrow> notNull c \<and> (hasString ''email'' c \<longrightarrow> hasString ''salt'' c)"

definition profilesShape :: "json \<Rightarrow> bool" where
  "profilesShape v \<longleftrightarrow> lengthIsZero v = Inr True \<or> isArrayOf notNull v"

text \<open>The path of the key file is valid, and the file is missing or holds a key of the
  right length.\<close>

definition keyReady :: "disk \<Rightarrow> bool" where
  "keyReady d \<longleftrightarrow>
     validPath d (keyPath d)
   \<and> (case nodes d (keyPath d) of
        None \<Rightarrow> True
      | Some (File (KeyText (ValidKey k))) \<Rightarrow> True
      | _ \<Rightarrow> False)"

text \<open>A usable data root: the data directory and the directory of the active profile can
  be used and can hold their files, and the key file is in order. The directory of the
  active profile has to lie inside the user-data directory: whether a directory outside it
  can be created or written is not for the program to decide.\<close>

definition usable :: "disk \<Rightarrow> bool" where
  "usable d \<longleftrightarrow>
     treeLike d
   \<and> canHold (baseDataDir d) baseFiles d
   \<and> canHold (activeDir d) profileFiles d
   \<and> prefix (userData d) (activeDir d)
   \<and> keyReady d"

text \<open>A well-shaped data root: each of the array documents an operation can reach, in the
  directory of the active profile and in the data directory, is missing, unparsable or an
  array of the shape above; so is the credentials file whenever it opens under the key in
  force. Settings and session documents may hold anything.\<close>

definition shaped :: "disk \<Rightarrow> bool" where
  "shaped d \<longleftrightarrow>
     profilesShape (profilesDoc d)
   \<and> list_all (\<lambda>dir. isArrayOf notNull (readJSON_fs (dir @ [''bookmarks.json'']) (JArr []) d)
                   \<and> isArrayOf historyShape (readJSON_fs (dir @ [''history.json'']) (JArr []) d)
                   \<and> isArrayOf notNull (readJSON_fs (dir @ [''downloads.json'']) (JArr []) d))
       [activeDir d, baseDataDir d]
   \<and> (\<forall>k v. nodes d (credentialsPath d) = Some (File (EnvelopeText (Sealed k (Parses v))))
            \<and> (nodes d (keyPath d) = None \<or> nodes d (keyPath d) = Some (File (KeyText (ValidKey k))))
          \<longrightarrow> isArrayOf credentialShape v)"

text \<open>The removal \<^verbatim>\<open>deleteProfile\<close> asks for is settled: the id is \<^verbatim>\<open>"default"\<close> (nothing
  is removed), or the path it resolves to lies inside the user-data directory, or the
  file system carries the removal out. For every other operation there is nothing to
  settle.\<close>

fun removal_settled :: "api_op \<Rightarrow> disk \<Rightarrow> bool" where
  "removal_settled (Profiles (DeleteProfile pid now0 now1 env)) d \<longleftrightarrow>
     pid = ''default''
   \<or> prefix (userData d) (joinPath (baseDataDir d @ [''profiles'']) pid)
   \<or> env = RmCompleted"
| "removal_settled opn d \<longleftrightarrow> True"

text \<open>Disks for concrete instances: a user-data directory that exists and is empty, and
  the same with a data directory in which a document has been tampered with.\<close>

definition home :: path where
  "home = [''home'', ''user'', ''.config'', ''browser'']"

definition disk0 :: disk where
  "disk0 = \<lparr> nodes = (\<lambda>p. if prefix p home then Some Dir else None), userData = home,
             activeId = ''default'', fsAccepts = list_all (\<lambda>c. length c \<le> 255) \<rparr>"

definition withDirs :: "path \<Rightarrow> disk \<Rightarrow> disk" where
  "withDirs dir d = snd (mkdirSync dir d)"

definition withFile :: "path \<Rightarrow> content \<Rightarrow> disk \<Rightarrow> disk" where
  "withFile p c d = snd (writeFileSync p c (withDirs (butlast p) d))"

text \<open>The disk after a file has been written.\<close>

definition written :: "path \<Rightarrow> content \<Rightarrow> disk \<Rightarrow> disk" where
  "written p c d = d\<lparr> nodes := (nodes d)(p \<mapsto> File c) \<rparr>"

definition base0 :: path where
  "base0 = home @ [''browser-data'']"

text \<open>\<^verbatim>\<open>null\<close> in the bookmarks document of the default profile.\<close>

definition disk_null_bookmarks :: disk where
  "disk_null_bookmarks =
     withFile (base0 @ [''profiles'', ''default'', ''bookmarks.json'']) (JsonText (Parses JNull)) disk0"

text \<open>A key file that does not hold 32 bytes.\<close>

definition disk_short_key :: disk where
  "disk_short_key = withFile (home @ [''.browser-key'']) (KeyText InvalidKey) disk0"

text \<open>A well-formed profile document that lists, next to the default profile, a profile
  whose id is a relative path: it leads from the profiles directory back to the profile
  document itself.\<close>

definition disk_listed_path :: disk where
  "disk_listed_path =
     withFile (base0 @ [''profiles.json''])
       (JsonText (Parses (JArr [Profile_json (defaultProfile 1),
                                mkProfile ''../profiles.json'' ''Odd'' ''person'' 1 False])))
       disk0"

text \<open>A bookmarks document of the default profile that does not parse.\<close>

definition disk_corrupt :: disk where
  "disk_corrupt =
     withFile (base0 @ [''profiles'', ''default'', ''bookmarks.json'']) (JsonText Unparsable) disk0"

text \<open>The document view of a disk: what each reader finds at the path of each document,
  with the directory of a profile resolved from its id.\<close>

fun keyView :: "node option \<Rightarrow> keyfile option" where
  "keyView None = None"
| "keyView (Some (File (KeyText k))) = Some k"
| "keyView (Some n) = Some InvalidKey"

fun encView :: "content option \<Rightarrow> encfile option" where
  "encView None = None"
| "encView (Some (EnvelopeText e)) = Some e"
| "encView (Some c) = Some NotEnvelope"

definition docView :: "disk \<Rightarrow> store" where
  "docView d =
     \<lparr> keyFile = keyView (nodes d (keyPath d)),
       encFiles = (\<lambda>name. encView (readFileSync (baseDataDir d @ [name @ ''.enc'']) d)),
       globalDocs = (\<lambda>name. jsonView (readFileSync (baseDataDir d @ [name @ ''.json'']) d)),
       profileDocs = (\<lambda>pid name.
          jsonView (readFileSync (joinPath (baseDataDir d @ [''profiles'']) pid @ [name @ ''.json'']) d)),
       activeProfileId = activeId d \<rparr>"

section \<open>Auxiliary facts\<close>

subsection \<open>Encryption layer\<close>

lemma unat_of_nat16: "n < 65536 \<Longrightarrow> unat (of_nat n :: 16 word) = n"
  by (simp add: unat_of_nat)

lemma unat_of_nat8: "n < 256 \<Longrightarrow> unat (of_nat n :: 8 word) = n"
  by (simp add: unat_of_nat)

lemma unat_byte_less: "unat (b :: 8 word) < 256"
  using unsigned_less[of b] by simp

lemma unat_unit_less: "unat (u :: 16 word) < 65536"
  using unsigned_less[of u] by simp

lemma hexValue_hexDigit:
  assumes "n < 16"
  shows "hexValue (hexDigit n) = Some n"
proof (cases "n < 10")
  case True
  then have "unat (of_nat (48 + n) :: 16 word) = 48 + n" by (intro unat_of_nat16) simp
  with True show ?thesis by (simp add: hexValue_def hexDigit_def Let_def)
next
  case False
  with assms have "unat (of_nat (87 + n) :: 16 word) = 87 + n" by (intro unat_of_nat16) simp
  with False assms show ?thesis by (simp add: hexValue_def hexDigit_def Let_def)
qed

lemma hexDecode_hexEncode: "hexDecode (hexEncode bs) = bs"
proof (induction bs)
  case Nil
  show ?case by (simp add: hexEncode_def)
next
  case (Cons b bs)
  have d: "unat b div 16 < 16" "unat b mod 16 < 16" using unat_byte_less[of b] by simp_all
  from Cons show ?case
    using hexValue_hexDigit[OF d(1)] hexValue_hexDigit[OF d(2)]
    by (simp add: hexEncode_def)
qed

lemma div4096: "(c::nat) div 4096 = c div 64 div 64"
  by (simp add: div_mult2_eq[symmetric])

lemma div262144: "(c::nat) div 262144 = c div 64 div 64 div 64"
  by (simp add: div_mult2_eq[symmetric])

lemma split64: "(q::nat) div 64 * 64 + q mod 64 = q"
  by simp

lemma split3: "(c::nat) div 4096 * 4096 + c div 64 mod 64 * 64 + c mod 64 = c"
proof -
  define q where "q = c div 64"
  define p where "p = q div 64"
  define a where "a = q mod 64"
  define b where "b = c mod 64"
  have c: "c = q * 64 + b" by (simp add: q_def b_def)
  have q: "q = p * 64 + a" by (simp add: p_def a_def)
  have "p * 4096 + a * 64 + b = c" using c q by simp
  then show ?thesis by (simp only: div4096 q_def p_def a_def b_def)
qed

lemma bound3: "(c::nat) < 65536 \<Longrightarrow> c div 4096 < 16"
  by (simp add: less_mult_imp_div_less)

lemma bound4: "(c::nat) < 1114112 \<Longrightarrow> c div 262144 < 5"
  by (simp add: less_mult_imp_div_less)

lemma split4:
  "(c::nat) div 262144 * 262144 + c div 4096 mod 64 * 4096 + c div 64 mod 64 * 64 + c mod 64 = c"
proof -
  define q where "q = c div 64"
  define p where "p = q div 64"
  define r where "r = p div 64"
  define a where "a = q mod 64"
  define b where "b = c mod 64"
  define d where "d = p mod 64"
  have c: "c = q * 64 + b" by (simp add: q_def b_def)
  have q: "q = p * 64 + a" by (simp add: p_def a_def)
  have p: "p = r * 64 + d" by (simp add: r_def d_def)
  have "r * 262144 + d * 4096 + a * 64 + b = c" using c q p by simp
  then show ?thesis by (simp only: div4096 div262144 q_def p_def r_def a_def b_def d_def)
qed

lemma decode_step1:
  "unat b < 0x80 \<Longrightarrow> utf8_decode (b # r) = of_nat (unat b) # utf8_decode r"
  by (simp add: Let_def)

lemma decode_step2:
  "0xC2 \<le> unat b \<Longrightarrow> unat b < 0xE0 \<Longrightarrow> isCont b1 \<Longrightarrow>
   utf8_decode (b # b1 # r) = of_nat ((unat b - 0xC0) * 64 + (unat b1 - 0x80)) # utf8_decode r"
  by (simp add: Let_def)

lemma decode_step3:
  "0xE0 \<le> unat b \<Longrightarrow> unat b < 0xF0 \<Longrightarrow>
   secondLo (unat b) \<le> unat b1 \<Longrightarrow> unat b1 \<le> secondHi (unat b) \<Longrightarrow> isCont b2 \<Longrightarrow>
   c = (unat b - 0xE0) * 4096 + (unat b1 - 0x80) * 64 + (unat b2 - 0x80) \<Longrightarrow>
   utf8_decode (b # b1 # b2 # r) = of_nat c # utf8_decode r"
  by (simp add: Let_def)

lemma decode_step4:
  "0xF0 \<le> unat b \<Longrightarrow> unat b < 0xF5 \<Longrightarrow>
   secondLo (unat b) \<le> unat b1 \<Longrightarrow> unat b1 \<le> secondHi (unat b) \<Longrightarrow>
   isCont b2 \<Longrightarrow> isCont b3 \<Longrightarrow>
   c = (unat b - 0xF0) * 262144 + (unat b1 - 0x80) * 4096 + (unat b2 - 0x80) * 64 + (unat b3 - 0x80) \<Longrightarrow>
   utf8_decode (b # b1 # b2 # b3 # r) =
     of_nat (0xD800 + (c - 0x10000) div 1024) # of_nat (0xDC00 + (c - 0x10000) mod 1024)
       # utf8_decode r"
  by (simp add: Let_def)

lemma decode_cp1:
  assumes "c < 0x80"
  shows "utf8_decode (utf8_of_cp c @ rest) = of_nat c # utf8_decode rest"
proof -
  define B0 :: "8 word" where "B0 = of_nat c"
  have u0: "unat B0 = c" unfolding B0_def using assms by (intro unat_of_nat8) simp
  have enc: "utf8_of_cp c = [B0]" using assms by (simp add: utf8_of_cp_def B0_def)
  have "utf8_decode (B0 # rest) = of_nat (unat B0) # utf8_decode rest"
    by (rule decode_step1) (simp add: u0 assms)
  then show ?thesis by (simp only: enc u0 append.simps)
qed

lemma decode_cp2:
  assumes "0x80 \<le> c" and "c < 0x800"
  shows "utf8_decode (utf8_of_cp c @ rest) = of_nat c # utf8_decode rest"
proof -
  define B0 :: "8 word" where "B0 = of_nat (0xC0 + c div 64)"
  define B1 :: "8 word" where "B1 = of_nat (0x80 + c mod 64)"
  have u0: "unat B0 = 0xC0 + c div 64" unfolding B0_def using assms by (intro unat_of_nat8) simp
  have u1: "unat B1 = 0x80 + c mod 64" unfolding B1_def by (intro unat_of_nat8) simp
  have enc: "utf8_of_cp c = [B0, B1]" using assms by (simp add: utf8_of_cp_def B0_def B1_def)
  have val: "(unat B0 - 0xC0) * 64 + (unat B1 - 0x80) = c" by (simp add: u0 u1)
  have "utf8_decode (B0 # B1 # rest)
          = of_nat ((unat B0 - 0xC0) * 64 + (unat B1 - 0x80)) # utf8_decode rest"
    using assms by (intro decode_step2) (simp_all add: u0 u1 isCont_def)
  then show ?thesis by (simp only: enc val append.simps)
qed

lemma decode_cp3:
  assumes "0x800 \<le> c" and "c < 0x10000" and "\<not> (0xD800 \<le> c \<and> c < 0xE000)"
  shows "utf8_decode (utf8_of_cp c @ rest) = of_nat c # utf8_decode rest"
proof -
  define h where "h = c div 4096"
  define m where "m = c div 64 mod 64"
  define l where "l = c mod 64"
  have hb: "h < 16" unfolding h_def using assms(2) by (intro bound3) simp
  have mb: "m < 64" and lb: "l < 64" by (simp_all add: m_def l_def)
  have sum: "h * 4096 + m * 64 + l = c" unfolding h_def m_def l_def by (rule split3)
  define B0 :: "8 word" where "B0 = of_nat (0xE0 + h)"
  define B1 :: "8 word" where "B1 = of_nat (0x80 + m)"
  define B2 :: "8 word" where "B2 = of_nat (0x80 + l)"
  have u0: "unat B0 = 0xE0 + h" unfolding B0_def using hb by (intro unat_of_nat8) simp
  have u1: "unat B1 = 0x80 + m" unfolding B1_def using mb by (intro unat_of_nat8) simp
  have u2: "unat B2 = 0x80 + l" unfolding B2_def using lb by (intro unat_of_nat8) simp
  have enc: "utf8_of_cp c = [B0, B1, B2]"
    using assms(1,2) by (simp add: utf8_of_cp_def B0_def B1_def B2_def h_def m_def l_def)
  have val: "c = (unat B0 - 0xE0) * 4096 + (unat B1 - 0x80) * 64 + (unat B2 - 0x80)"
    using sum by (simp add: u0 u1 u2)
  have c0: "0xE0 \<le> unat B0" "unat B0 < 0xF0" using hb by (simp_all add: u0)
  have lo: "secondLo (unat B0) \<le> unat B1"
  proof (cases "h = 0")
    case True
    with sum assms(1) lb have "32 \<le> m" by linarith
    with True show ?thesis by (simp add: secondLo_def u0 u1)
  next
    case False
    with hb show ?thesis by (simp add: secondLo_def u0 u1)
  qed
  have hi: "unat B1 \<le> secondHi (unat B0)"
  proof (cases "h = 13")
    case True
    with sum assms(3) hb mb lb have "m < 32" by linarith
    with True show ?thesis by (simp add: secondHi_def u0 u1)
  next
    case False
    with mb hb show ?thesis by (simp add: secondHi_def u0 u1)
  qed
  have c2: "isCont B2" using lb by (simp add: isCont_def u2)
  have "utf8_decode (B0 # B1 # B2 # rest) = of_nat c # utf8_decode rest"
    by (rule decode_step3[OF c0 lo hi c2 val])
  then show ?thesis by (simp only: enc append.simps)
qed

lemma decode_cp4:
  assumes "0x10000 \<le> c" and "c < 0x110000"
  shows "utf8_decode (utf8_of_cp c @ rest) =
           of_nat (0xD800 + (c - 0x10000) div 1024) # of_nat (0xDC00 + (c - 0x10000) mod 1024)
             # utf8_decode rest"
proof -
  define g where "g = c div 262144"
  define h where "h = c div 4096 mod 64"
  define m where "m = c div 64 mod 64"
  define l where "l = c mod 64"
  have gb: "g < 5" unfolding g_def using assms(2) by (intro bound4) simp
  have hb: "h < 64" and mb: "m < 64" and lb: "l < 64" by (simp_all add: h_def m_def l_def)
  have sum: "g * 262144 + h * 4096 + m * 64 + l = c" unfolding g_def h_def m_def l_def by (rule split4)
  define B0 :: "8 word" where "B0 = of_nat (0xF0 + g)"
  define B1 :: "8 word" where "B1 = of_nat (0x80 + h)"
  define B2 :: "8 word" where "B2 = of_nat (0x80 + m)"
  define B3 :: "8 word" where "B3 = of_nat (0x80 + l)"
  have u0: "unat B0 = 0xF0 + g" unfolding B0_def using gb by (intro unat_of_nat8) simp
  have u1: "unat B1 = 0x80 + h" unfolding B1_def using hb by (intro unat_of_nat8) simp
  have u2: "unat B2 = 0x80 + m" unfolding B2_def using mb by (intro unat_of_nat8) simp
  have u3: "unat B3 = 0x80 + l" unfolding B3_def using lb by (intro unat_of_nat8) simp
  have ge: "\<not> c < 0x80" "\<not> c < 0x800" "\<not> c < 0x10000" using assms(1) by simp_all
  have enc: "utf8_of_cp c = [B0, B1, B2, B3]"
    unfolding utf8_of_cp_def B0_def B1_def B2_def B3_def g_def h_def m_def l_def
    by (simp only: ge if_False)
  have val: "c = (unat B0 - 0xF0) * 262144 + (unat B1 - 0x80) * 4096 + (unat B2 - 0x80) * 64
                  + (unat B3 - 0x80)"
    using sum by (simp add: u0 u1 u2 u3)
  have c0: "0xF0 \<le> unat B0" "unat B0 < 0xF5" using gb by (simp_all add: u0)
  have lo: "secondLo (unat B0) \<le> unat B1"
  proof (cases "g = 0")
    case True
    with sum assms(1) mb lb have "16 \<le> h" by linarith
    with True show ?thesis by (simp add: secondLo_def u0 u1)
  next
    case False
    with gb show ?thesis by (simp add: secondLo_def u0 u1)
  qed
  have hi: "unat B1 \<le> secondHi (unat B0)"
  proof (cases "g = 4")
    case True
    with sum assms(2) have "h < 16" by linarith
    with True show ?thesis by (simp add: secondHi_def u0 u1)
  next
    case False
    with hb gb show ?thesis by (simp add: secondHi_def u0 u1)
  qed
  have c2: "isCont B2" using mb by (simp add: isCont_def u2)
  have c3: "isCont B3" using lb by (simp add: isCont_def u3)
  have "utf8_decode (B0 # B1 # B2 # B3 # rest) =
           of_nat (0xD800 + (c - 0x10000) div 1024) # of_nat (0xDC00 + (c - 0x10000) mod 1024)
             # utf8_decode rest"
    by (rule decode_step4[OF c0 lo hi c2 c3 val])
  then show ?thesis by (simp only: enc append.simps)
qed


lemma decode_scalar:
  assumes "c < 0x10000" and "\<not> (0xD800 \<le> c \<and> c < 0xE000)"
  shows "utf8_decode (utf8_of_cp c @ rest) = of_nat c # utf8_decode rest"
proof -
  consider "c < 0x80" | "0x80 \<le> c" "c < 0x800" | "0x800 \<le> c" by linarith
  then show ?thesis
  proof cases
    case 1
    then show ?thesis by (rule decode_cp1)
  next
    case 2
    then show ?thesis by (rule decode_cp2)
  next
    case 3
    from this assms show ?thesis by (rule decode_cp3)
  qed
qed

lemma unit_of_unat: "of_nat (unat u) = (u :: 16 word)"
  by simp

lemma decode_unit:
  assumes "\<not> isHigh u" and "\<not> isLow u"
  shows "utf8_decode (utf8_of_cp (unat u) @ rest) = u # utf8_decode rest"
proof -
  have "unat u < 0x10000" using unat_unit_less[of u] by simp
  moreover have "\<not> (0xD800 \<le> unat u \<and> unat u < 0xE000)"
    using assms by (auto simp: isHigh_def isLow_def)
  ultimately have "utf8_decode (utf8_of_cp (unat u) @ rest) = of_nat (unat u) # utf8_decode rest"
    by (rule decode_scalar)
  then show ?thesis by (simp only: unit_of_unat)
qed

lemma decode_pair:
  assumes "isHigh u" and "isLow v"
  shows "utf8_decode (utf8_of_cp (0x10000 + (unat u - 0xD800) * 1024 + (unat v - 0xDC00)) @ rest)
           = u # v # utf8_decode rest"
proof -
  define a where "a = unat u - 0xD800"
  define b where "b = unat v - 0xDC00"
  have ab: "a < 1024" "b < 1024"
    using assms unfolding a_def b_def isHigh_def isLow_def by linarith+
  have ua: "0xD800 + a = unat u" and vb: "0xDC00 + b = unat v"
    using assms unfolding a_def b_def isHigh_def isLow_def by linarith+
  define c where "c = 0x10000 + a * 1024 + b"
  have c1: "0x10000 \<le> c" by (simp add: c_def)
  have c2: "c < 0x110000" using ab by (simp add: c_def)
  have d: "(c - 0x10000) div 1024 = a" and m: "(c - 0x10000) mod 1024 = b"
    using ab by (simp_all add: c_def)
  have "utf8_decode (utf8_of_cp c @ rest) =
           of_nat (0xD800 + (c - 0x10000) div 1024) # of_nat (0xDC00 + (c - 0x10000) mod 1024)
             # utf8_decode rest"
    using c1 c2 by (rule decode_cp4)
  then have "utf8_decode (utf8_of_cp c @ rest) = of_nat (unat u) # of_nat (unat v) # utf8_decode rest"
    by (simp only: d m ua vb)
  then show ?thesis by (simp only: unit_of_unat c_def a_def b_def)
qed

lemma utf8_roundtrip: "wellFormed x \<Longrightarrow> utf8_decode (utf8_encode x) = x"
proof (induction x rule: utf8_encode.induct)
  case 1
  show ?case by simp
next
  case (2 u)
  then have "\<not> isHigh u" "\<not> isLow u" by simp_all
  with decode_unit[of u "[]"] show ?case by simp
next
  case (3 u v rest)
  show ?case
  proof (cases "isHigh u")
    case True
    with "3.prems" have lo: "isLow v" and wf: "wellFormed rest" by simp_all
    from "3.IH"(1)[OF True lo wf] have ih: "utf8_decode (utf8_encode rest) = rest" .
    have "utf8_encode (u # v # rest) =
            utf8_of_cp (0x10000 + (unat u - 0xD800) * 1024 + (unat v - 0xDC00)) @ utf8_encode rest"
      using True lo by simp
    with decode_pair[OF True lo, of "utf8_encode rest"] ih show ?thesis by simp
  next
    case False
    with "3.prems" have nl: "\<not> isLow u" and wf: "wellFormed (v # rest)" by simp_all
    from "3.IH"(4)[OF False nl wf] have ih: "utf8_decode (utf8_encode (v # rest)) = v # rest" .
    have "utf8_encode (u # v # rest) = utf8_of_cp (unat u) @ utf8_encode (v # rest)"
      using False nl by simp
    with decode_unit[OF False nl, of "utf8_encode (v # rest)"] ih show ?thesis by simp
  qed
qed

lemma hexDigit_range:
  assumes "n < 16"
  shows "(48 \<le> unat (hexDigit n) \<and> unat (hexDigit n) \<le> 57)
       \<or> (97 \<le> unat (hexDigit n) \<and> unat (hexDigit n) \<le> 102)"
proof (cases "n < 10")
  case True
  then have "unat (of_nat (48 + n) :: 16 word) = 48 + n" by (intro unat_of_nat16) simp
  with True show ?thesis by (simp add: hexDigit_def)
next
  case False
  with assms have "unat (of_nat (87 + n) :: 16 word) = 87 + n" by (intro unat_of_nat16) simp
  with False assms show ?thesis by (simp add: hexDigit_def)
qed

lemma hexEncode_Cons:
  "hexEncode (b # bs) = hexDigit (unat b div 16) # hexDigit (unat b mod 16) # hexEncode bs"
  by (simp add: hexEncode_def)

lemma hexEncode_chars:
  "u \<in> set (hexEncode bs) \<Longrightarrow>
     (48 \<le> unat u \<and> unat u \<le> 57) \<or> (97 \<le> unat u \<and> unat u \<le> 102)"
proof (induction bs)
  case Nil
  then show ?case by (simp add: hexEncode_def)
next
  case (Cons b bs)
  have d: "unat b div 16 < 16" "unat b mod 16 < 16" using unat_byte_less[of b] by simp_all
  from Cons.prems consider "u = hexDigit (unat b div 16)" | "u = hexDigit (unat b mod 16)"
    | "u \<in> set (hexEncode bs)"
    by (auto simp: hexEncode_Cons)
  then show ?case
  proof cases
    case 1
    with hexDigit_range[OF d(1)] show ?thesis by simp
  next
    case 2
    with hexDigit_range[OF d(2)] show ?thesis by simp
  next
    case 3
    then show ?thesis by (rule Cons.IH)
  qed
qed

lemma hexEncode_no_colon: "colon \<notin> set (hexEncode bs)"
proof
  assume "colon \<in> set (hexEncode bs)"
  from hexEncode_chars[OF this] show False by (simp add: colon_def)
qed

lemma hexEncode_no_space: "u \<in> set (hexEncode bs) \<Longrightarrow> \<not> isSpace u"
  using hexEncode_chars[of u bs] by (auto simp: isSpace_def Let_def)

lemma dropWhile_none: "\<forall>x \<in> set xs. \<not> p x \<Longrightarrow> dropWhile p xs = xs"
  by (cases xs) simp_all

lemma trim_hexEncode: "trim (hexEncode bs) = hexEncode bs"
  by (simp add: trim_def dropWhile_none hexEncode_no_space)

lemma splitOn_nonempty: "splitOn d xs \<noteq> []"
  by (induction xs) (auto split: list.splits)

lemma splitOn_plain: "d \<notin> set a \<Longrightarrow> splitOn d a = [a]"
  by (induction a) (auto split: list.splits)

lemma splitOn_append: "d \<notin> set a \<Longrightarrow> splitOn d (a @ d # rest) = a # splitOn d rest"
  by (induction a) (auto split: list.splits)

lemma split_envelope:
  "splitOn colon (hexEncode iv @ [colon] @ hexEncode tag @ [colon] @ hexEncode ct)
     = [hexEncode iv, hexEncode tag, hexEncode ct]"
  using splitOn_append[OF hexEncode_no_colon, of iv "hexEncode tag @ colon # hexEncode ct"]
        splitOn_append[OF hexEncode_no_colon, of tag "hexEncode ct"]
        splitOn_plain[OF hexEncode_no_colon, of ct]
  by simp

lemma getAppKey_stable:
  assumes "getAppKey random32 kf = (key, kf1)"
  shows "getAppKey random32' kf1 = (key, kf1)"
  using assms
  by (auto simp: getAppKey_def trim_hexEncode hexDecode_hexEncode split: option.splits)

lemma getAppKey_length:
  assumes "getAppKey random32 kf = (key, kf1)" and "length random32 = 32"
    and "keyFile_ok kf"
  shows "length key = 32"
  using assms by (auto simp: getAppKey_def keyFile_ok_def split: option.splits)

lemma envelope_roundtrip:
  assumes "cipher_correct c" and "length random32 = 32" and "length iv = 16"
    and "keyFile_ok kf"
  shows "roundTrip c random32 random32' iv x kf = Inr (utf8_decode (utf8_encode x))"
proof -
  obtain key kf1 where k: "getAppKey random32 kf = (key, kf1)"
    by (cases "getAppKey random32 kf")
  have len: "length key = 32" by (rule getAppKey_length[OF k assms(2,4)])
  from assms(1) len assms(3) obtain encrypted tag where
    e: "encrypt_gcm c key iv (utf8_encode x) = Some (encrypted, tag)" and
    d: "decrypt_gcm c key iv tag encrypted = Some (utf8_encode x)"
    unfolding cipher_correct_def by blast
  let ?env = "hexEncode iv @ [colon] @ hexEncode tag @ [colon] @ hexEncode encrypted"
  have enc: "encryptData c random32 iv x kf = Inr (?env, kf1)"
    using k e by (simp add: encryptData_def)
  have k': "getAppKey random32' kf1 = (key, kf1)" by (rule getAppKey_stable[OF k])
  have dec: "decryptData c random32' ?env kf1 = Inr (utf8_decode (utf8_encode x), kf1)"
    using k' d by (simp add: decryptData_def split_envelope hexDecode_hexEncode del: append.simps)
  show ?thesis using enc dec by (simp add: roundTrip_def del: append.simps)
qed

lemma cipher_correct_demo: "cipher_correct demo_cipher"
  by (simp add: cipher_correct_def demo_cipher_def o_def)

lemma getAppKey_abs_refines:
  assumes "length random32 = 32" and "keyFile s = map_option keyfile_of kf"
    and "getAppKey random32 kf = (k, kf')"
  shows "getAppKey_abs random32 s = (key_of k, s\<lparr> keyFile := map_option keyfile_of kf' \<rparr>)"
proof (cases kf)
  case None
  with assms show ?thesis
    by (auto simp: getAppKey_def getAppKey_abs_def key_of_def keyfile_of_def
          trim_hexEncode hexDecode_hexEncode)
next
  case (Some t)
  with assms have "k = hexDecode (trim t)" "kf' = Some t" by (auto simp: getAppKey_def)
  moreover have "s\<lparr> keyFile := keyFile s \<rparr> = s" by simp
  ultimately show ?thesis using assms(2) Some
    by (simp add: getAppKey_abs_def keyfile_of_def)
qed

subsection \<open>Bookmarks\<close>

lemma some_url_Bookmarks:
  "some_js (fieldIs ''url'' u) (map Bookmark_json bs) = Inr (u \<in> set (map bm_url bs))"
  by (induction bs) (auto simp: fieldIs_def Bookmark_json_def)

lemma getBookmarks_writeProfile:
  "getBookmarks (writeProfile ''bookmarks'' v s) = v"
  by (simp add: getBookmarks_def readProfile_def writeProfile_def)

lemma addBookmark_typed:
  assumes "getBookmarks s = JArr (map Bookmark_json bs)"
  shows "addBookmark u t n s =
           (if u \<in> set (map bm_url bs) then Inr (JArr (map Bookmark_json bs), s)
            else Inr (JArr (map Bookmark_json (bs @ [\<lparr> bm_url = u, bm_title = t, addedAt = n \<rparr>])),
                      writeProfile ''bookmarks''
                        (JArr (map Bookmark_json (bs @ [\<lparr> bm_url = u, bm_title = t, addedAt = n \<rparr>]))) s))"
  using assms
  by (simp add: addBookmark_def some_url_Bookmarks mkBookmark_def Let_def)

lemma filter_url_absent: "u \<notin> set (map bm_url bs) \<Longrightarrow> filter (\<lambda>b. bm_url b = u) bs = []"
  by (induction bs) auto

lemma filter_url_present: "u \<in> set (map bm_url bs) \<Longrightarrow> 1 \<le> length (filter (\<lambda>b. bm_url b = u) bs)"
  by (induction bs) auto

lemma filter_url_distinct:
  "distinct (map bm_url bs) \<Longrightarrow> length (filter (\<lambda>b. bm_url b = u) bs) \<le> 1"
  by (induction bs) (auto simp: filter_empty_conv image_iff)

subsection \<open>History\<close>

lemma getHistory_writeProfile: "getHistory (writeProfile ''history'' v s) = v"
  by (simp add: getHistory_def readProfile_def writeProfile_def)

lemma addHistoryEntry_array:
  assumes "getHistory s = JArr h"
  shows "addHistoryEntry u t n s =
           Inr (writeProfile ''history'' (JArr (take 1000 (mkHistoryEntry u t n # h))) s)"
  using assms by (simp add: addHistoryEntry_def Let_def)

lemma take_append_take: "take n (xs @ take n ys) = take n (xs @ ys)"
  by (simp add: min_def)

lemma mkHistoryEntry_record:
  "mkHistoryEntry (he_url e) (he_title e) (visitedAt e) = HistoryEntry_json e"
  by (simp add: mkHistoryEntry_def HistoryEntry_json_def)

lemma addHistoryEntries_array:
  assumes "getHistory s = JArr h"
  shows "\<exists>s'. addHistoryEntries es s = Inr s'
             \<and> getHistory s' =
                 JArr (if es = [] then h else take 1000 (map HistoryEntry_json (rev es) @ h))"
  using assms
proof (induction es arbitrary: s h)
  case Nil
  then show ?case by simp
next
  case (Cons e es)
  define s1 where "s1 = writeProfile ''history'' (JArr (take 1000 (HistoryEntry_json e # h))) s"
  have step: "addHistoryEntry (he_url e) (he_title e) (visitedAt e) s = Inr s1"
    using addHistoryEntry_array[OF Cons.prems] by (simp add: s1_def mkHistoryEntry_record)
  have g1: "getHistory s1 = JArr (take 1000 (HistoryEntry_json e # h))"
    by (simp add: s1_def getHistory_writeProfile)
  from Cons.IH[OF g1] obtain s' where
    run: "addHistoryEntries es s1 = Inr s'" and
    res: "getHistory s' = JArr (if es = [] then take 1000 (HistoryEntry_json e # h)
            else take 1000 (map HistoryEntry_json (rev es) @ take 1000 (HistoryEntry_json e # h)))"
    by blast
  have "addHistoryEntries (e # es) s = Inr s'"
    using step run by simp
  moreover have "getHistory s' = JArr (take 1000 (map HistoryEntry_json (rev (e # es)) @ h))"
  proof (cases "es = []")
    case True
    with res show ?thesis by simp
  next
    case False
    have "take 1000 (map HistoryEntry_json (rev es) @ take 1000 (HistoryEntry_json e # h))
            = take 1000 (map HistoryEntry_json (rev es) @ HistoryEntry_json e # h)"
      by (rule take_append_take)
    with res False show ?thesis by simp
  qed
  ultimately show ?case by simp
qed

subsection \<open>Downloads\<close>

lemma firstIndex_None: "firstIndex p xs = None \<longleftrightarrow> (\<forall>x \<in> set xs. \<not> p x)"
  by (induction xs) auto

lemma firstIndex_Some:
  "firstIndex p xs = Some k \<Longrightarrow> k < length xs \<and> p (xs ! k) \<and> (\<forall>j < k. \<not> p (xs ! j))"
proof (induction xs arbitrary: k)
  case Nil
  then show ?case by simp
next
  case (Cons x xs)
  show ?case
  proof (cases "p x")
    case True
    with Cons.prems show ?thesis by simp
  next
    case False
    with Cons.prems obtain k' where k': "firstIndex p xs = Some k'" "k = Suc k'" by auto
    from Cons.IH[OF k'(1)] False k'(2) show ?thesis
      by (auto simp: nth_Cons split: nat.splits)
  qed
qed

lemma firstIndex_first:
  "k < length xs \<Longrightarrow> p (xs ! k) \<Longrightarrow> \<forall>j < k. \<not> p (xs ! j) \<Longrightarrow> firstIndex p xs = Some k"
proof (induction xs arbitrary: k)
  case Nil
  then show ?case by simp
next
  case (Cons x xs)
  show ?case
  proof (cases k)
    case 0
    with Cons.prems show ?thesis by simp
  next
    case (Suc k')
    with Cons.prems have "\<not> p x" by auto
    moreover have "firstIndex p xs = Some k'"
      using Cons.prems Suc by (intro Cons.IH) auto
    ultimately show ?thesis using Suc by simp
  qed
qed

lemma findIndex_DownloadItems:
  "findIndex_js (fieldIs ''id'' i) (map DownloadItem_json ds) = Inr (firstIndex (\<lambda>d. ident d = i) ds)"
  by (induction ds) (auto simp: fieldIs_def DownloadItem_json_def split: option.splits)

lemma getDownloads_writeProfile: "getDownloads (writeProfile ''downloads'' v s) = v"
  by (simp add: getDownloads_def readProfile_def writeProfile_def)

lemma saveDownload_typed:
  assumes "getDownloads s = JArr (map DownloadItem_json ds)"
  shows "saveDownload item s =
           Inr (writeProfile ''downloads'' (JArr (map DownloadItem_json (saveDownload_list item ds))) s)"
proof (cases "firstIndex (\<lambda>d. ident d = ident item) ds")
  case None
  then show ?thesis using assms
    by (simp add: saveDownload_def findIndex_DownloadItems saveDownload_list_def Let_def take_map)
next
  case (Some k)
  have "(map DownloadItem_json ds)[k := DownloadItem_json item] = map DownloadItem_json (ds[k := item])"
    by (simp add: map_update)
  with Some show ?thesis using assms
    by (simp add: saveDownload_def findIndex_DownloadItems saveDownload_list_def Let_def take_map)
qed

lemma saveDownload_list_length: "length (saveDownload_list item ds) \<le> 100"
  by (simp add: saveDownload_list_def)

lemma filter_update_distinct:
  assumes "distinct (map f xs)" and "k < length xs" and "f y = f (xs ! k)"
  shows "filter (\<lambda>x. f x = f y) (xs[k := y]) = [y]"
  using assms
proof (induction xs arbitrary: k)
  case Nil
  then show ?case by simp
next
  case (Cons x xs)
  show ?case
  proof (cases k)
    case 0
    with Cons.prems have "\<forall>z \<in> set xs. f z \<noteq> f y" by (auto simp: image_iff)
    then have "filter (\<lambda>x. f x = f y) xs = []" by (simp add: filter_empty_conv)
    with 0 show ?thesis by simp
  next
    case (Suc k')
    with Cons.prems have "f x \<noteq> f y" by (auto simp: image_iff)
    moreover have "filter (\<lambda>x. f x = f y) (xs[k' := y]) = [y]"
      using Cons.prems Suc by (intro Cons.IH) auto
    ultimately show ?thesis using Suc by simp
  qed
qed

lemma saveDownload_list_twice:
  assumes inv: "downloads_inv ds" and same: "ident item2 = ident item1"
  defines "ds1 \<equiv> saveDownload_list item1 ds"
  defines "ds2 \<equiv> saveDownload_list item2 ds1"
  shows "\<exists>k < length ds2.
            ds1 ! k = item1 \<and> ds2 = ds1[k := item2] \<and> ds2 ! k = item2
          \<and> filter (\<lambda>d. ident d = ident item1) ds2 = [item2]
          \<and> (if ident item1 \<in> set (map ident ds)
              then ident (ds ! k) = ident item1 \<and> ds1 = ds[k := item1]
              else k = 0 \<and> ds1 = take 100 (item1 # ds))
          \<and> downloads_inv ds2"
proof (cases "firstIndex (\<lambda>d. ident d = ident item1) ds")
  case None
  then have fresh: "\<forall>d \<in> set ds. ident d \<noteq> ident item1" by (simp add: firstIndex_None)
  have ds1: "ds1 = item1 # take 99 ds" using None by (simp add: ds1_def saveDownload_list_def)
  have "firstIndex (\<lambda>d. ident d = ident item2) ds1 = Some 0" using same by (simp add: ds1)
  then have ds2: "ds2 = item2 # take 99 ds" by (simp add: ds2_def saveDownload_list_def ds1)
  have nomatch: "filter (\<lambda>d. ident d = ident item1) (take 99 ds) = []"
    using fresh by (auto simp: filter_empty_conv dest: in_set_takeD)
  have notin: "ident item1 \<notin> set (map ident ds)" using fresh by auto
  have notin2: "ident item2 \<notin> ident ` set (take 99 ds)" using fresh same by (auto dest: in_set_takeD)
  have "distinct (map ident (take 99 ds))" using inv by (simp add: downloads_inv_def take_map[symmetric])
  then have inv2: "downloads_inv ds2" using notin2 by (simp add: downloads_inv_def ds2)
  show ?thesis
    using same nomatch notin inv2 by (intro exI[of _ 0]) (simp add: ds1 ds2)
next
  case (Some k)
  from firstIndex_Some[OF Some] have k: "k < length ds" "ident (ds ! k) = ident item1"
    "\<forall>j < k. ident (ds ! j) \<noteq> ident item1" by auto
  have len: "length ds \<le> 100" and dist: "distinct (map ident ds)" using inv by (simp_all add: downloads_inv_def)
  have ds1: "ds1 = ds[k := item1]" using Some len by (simp add: ds1_def saveDownload_list_def)
  have "firstIndex (\<lambda>d. ident d = ident item2) ds1 = Some k"
    using k same by (intro firstIndex_first) (auto simp: ds1)
  then have ds2: "ds2 = ds[k := item2]" using len by (simp add: ds2_def saveDownload_list_def ds1)
  have flt: "filter (\<lambda>d. ident d = ident item2) (ds[k := item2]) = [item2]"
    using dist k same by (intro filter_update_distinct) auto
  have isin: "ident item1 \<in> set (map ident ds)" using k by (auto simp: image_iff intro!: bexI[of _ "ds ! k"])
  have "map ident (ds[k := item2]) = map ident ds"
    using k same by (simp add: map_update list_update_same_conv)
  then have inv2: "downloads_inv ds2" using inv by (simp add: downloads_inv_def ds2)
  show ?thesis
    using k same flt isin inv2 by (intro exI[of _ k]) (simp add: ds1 ds2)
qed

lemma saveDownload_list_inv:
  assumes "downloads_inv ds"
  shows "downloads_inv (saveDownload_list item ds)"
proof (cases "firstIndex (\<lambda>d. ident d = ident item) ds")
  case None
  then have "\<forall>d \<in> set ds. ident d \<noteq> ident item" by (simp add: firstIndex_None)
  then have "ident item \<notin> ident ` set (take 99 ds)" by (auto dest: in_set_takeD)
  moreover have "distinct (map ident (take 99 ds))"
    using assms by (simp add: downloads_inv_def take_map[symmetric])
  ultimately show ?thesis using None by (simp add: saveDownload_list_def downloads_inv_def)
next
  case (Some k)
  from firstIndex_Some[OF Some] have "k < length ds" "ident (ds ! k) = ident item" by auto
  then have "map ident (ds[k := item]) = map ident ds"
    by (simp add: map_update list_update_same_conv)
  then show ?thesis using Some assms by (simp add: saveDownload_list_def downloads_inv_def)
qed

subsection \<open>Profiles\<close>

lemma find_id_Profiles_None:
  "pid \<notin> set (map profile_id ps) \<Longrightarrow> find_js (fieldIs ''id'' pid) (map Profile_json ps) = Inr None"
  by (induction ps) (auto simp: fieldIs_def Profile_json_def)

lemma getProfiles_keeps:
  assumes "getProfiles now s = Inr (v, s1)"
  shows "activeProfileId s1 = activeProfileId s \<and> profileDocs s1 = profileDocs s
         \<and> encFiles s1 = encFiles s \<and> keyFile s1 = keyFile s"
  using assms
  by (auto simp: getProfiles_def Let_def writeGlobal_def split: sum.splits if_splits)

subsection \<open>Settings\<close>

lemma foldl_update_map_of:
  "map_of (foldl (\<lambda>acc (k, x). AList.update k x acc) t ps) = map_of t ++ map_of (rev ps)"
proof (induction ps arbitrary: t)
  case Nil
  show ?case by simp
next
  case (Cons p ps)
  obtain k x where p: "p = (k, x)" by (cases p)
  have "map_of (foldl (\<lambda>acc (k, x). AList.update k x acc) t (p # ps))
          = map_of (AList.update k x t) ++ map_of (rev ps)"
    using Cons.IH[of "AList.update k x t"] p by simp
  also have "\<dots> = map_of t ++ map_of (rev (p # ps))"
    by (auto simp: p update_conv' map_add_def fun_eq_iff split: option.splits)
  finally show ?case .
qed

lemma foldl_update_distinct:
  "distinct (map fst t) \<Longrightarrow> distinct (map fst (foldl (\<lambda>acc (k, x). AList.update k x acc) t ps))"
proof (induction ps arbitrary: t)
  case Nil
  then show ?case by simp
next
  case (Cons p ps)
  obtain k x where p: "p = (k, x)" by (cases p)
  from Cons.prems have "distinct (map fst (AList.update k x t))" by (rule distinct_update)
  from Cons.IH[OF this] p show ?case by simp
qed

lemma map_of_rev_distinct: "distinct (map fst ps) \<Longrightarrow> map_of (rev ps) = map_of ps"
  by (rule map_of_inject_set[THEN iffD2]) (simp_all add: rev_map[symmetric])

lemma spreadOver_map_of: "map_of (spreadOver t v) = map_of t ++ map_of (rev (ownProps v))"
  by (simp add: spreadOver_def foldl_update_map_of)

lemma spreadOver_object: "map_of (spreadOver t (JObj kvs)) = map_of t ++ map_of kvs"
  by (simp add: spreadOver_map_of map_of_rev_distinct distinct_clearjunk map_of_clearjunk)

lemma spreadOver_distinct: "distinct (map fst t) \<Longrightarrow> distinct (map fst (spreadOver t v))"
  by (simp add: spreadOver_def foldl_update_distinct)

lemma spread_defaults: "spreadOver [] (JObj defaultSettings) = defaultSettings"
  by (simp add: spreadOver_def defaultSettings_def AList.clearjunk.simps AList.delete_eq)

subsection \<open>The two storage modules\<close>




subsection \<open>Auth\<close>

lemma readEncrypted_state:
  assumes "keyFile s \<noteq> Some InvalidKey"
  shows "snd (readEncrypted name fb fk s) = s
       \<or> (keyFile s = None \<and> snd (readEncrypted name fb fk s) = s\<lparr> keyFile := Some (ValidKey fk) \<rparr>)"
  using assms
  by (auto simp: readEncrypted_def getAppKey_abs_def Let_def split: option.splits encfile.splits keyfile.splits)

lemma writeEncrypted_valid:
  assumes "keyFile s \<noteq> Some InvalidKey"
  shows "writeEncrypted name v fk s =
           Inr (s\<lparr> keyFile := Some (ValidKey (appKey fk s)),
                   encFiles := (encFiles s)(name \<mapsto> Sealed (appKey fk s) (Parses v)) \<rparr>)"
  using assms
  by (cases "keyFile s"; cases "the (keyFile s)")
     (auto simp: writeEncrypted_def getAppKey_abs_def appKey_def)

lemma readEncrypted_sealed:
  assumes "keyFile s = Some (ValidKey k)" and "encFiles s name = Some (Sealed k (Parses v))"
  shows "readEncrypted name fb fk s = (v, s)"
  using assms by (simp add: readEncrypted_def getAppKey_abs_def)

section \<open>Auxiliary facts about the stores on the file system\<close>

subsection \<open>Directories and files\<close>

text \<open>On a disk that is a tree, \<^verbatim>\<open>ensureDir\<close> succeeds on a directory that can be used and
  leaves the disk \<open>ensured\<close>; a write into a directory that can hold the file succeeds.\<close>

lemma thenDo_Inr [simp]: "thenDo (Inr x, d) k = k x d"
  by (simp add: thenDo_def)

lemma thenDo_Inl [simp]: "thenDo (Inl e, d) k = (Inl e, d)"
  by (simp add: thenDo_def)

lemma node_cases: "n = None \<or> n = Some Dir \<or> isFile n"
  by (cases n rule: isFile.cases) auto

lemma treeLike_parent: "treeLike d \<Longrightarrow> nodes d (p @ [c]) \<noteq> None \<Longrightarrow> nodes d p = Some Dir"
  by (auto simp: treeLike_def)

lemma treeLike_ancestor:
  "treeLike d \<Longrightarrow> nodes d (q @ r) \<noteq> None \<Longrightarrow> r \<noteq> [] \<Longrightarrow> nodes d q = Some Dir"
proof (induction r rule: rev_induct)
  case Nil then show ?case by simp
next
  case (snoc c r)
  have par: "nodes d (q @ r) = Some Dir"
    using treeLike_parent[OF snoc.prems(1), of "q @ r" c] snoc.prems(2) by simp
  show ?case
  proof (cases "r = []")
    case True then show ?thesis using par by simp
  next
    case False then show ?thesis using snoc.IH[OF snoc.prems(1)] par by simp
  qed
qed

lemma treeLike_prefix:
  "treeLike d \<Longrightarrow> nodes d p \<noteq> None \<Longrightarrow> prefix q p \<Longrightarrow> q \<noteq> p \<Longrightarrow> nodes d q = Some Dir"
  by (metis append_Nil2 prefixE treeLike_ancestor)

lemma dirReady_prefix: "dirReady p d \<Longrightarrow> prefix q p \<Longrightarrow> nodes d q = None \<or> nodes d q = Some Dir"
  using node_cases[of "nodes d q"] by (auto simp: dirReady_def)

lemma ensured_same:
  assumes "treeLike d" "dirReady p d" "nodes d p \<noteq> None"
  shows "ensured p d = d"
proof -
  have "\<And>q. prefix q p \<Longrightarrow> nodes d q = Some Dir"
  proof -
    fix q assume q: "prefix q p"
    show "nodes d q = Some Dir"
    proof (cases "q = p")
      case True then show ?thesis using dirReady_prefix[OF assms(2) q] assms(3) by simp
    next
      case False then show ?thesis using treeLike_prefix[OF assms(1,3) q] by simp
    qed
  qed
  then have "(\<lambda>q. if prefix q p then Some Dir else nodes d q) = nodes d" by auto
  then show ?thesis by (simp add: ensured_def)
qed

lemma ensureDir_eq:
  assumes "treeLike d" "dirReady p d"
  shows "ensureDir p slash d = (Inr (), ensured p d)"
proof (cases "nodes d p = None")
  case True
  have v: "validPath d p" using assms(2) by (simp add: dirReady_def)
  have nf: "list_all (\<lambda>q. \<not> isFile (nodes d q)) (prefixes p)"
    using assms(2) by (simp add: dirReady_def list_all_iff)
  have "(\<lambda>q. if prefix q p \<and> nodes d q = None then Some Dir else nodes d q)
        = (\<lambda>q. if prefix q p then Some Dir else nodes d q)"
  proof (intro ext)
    fix q show "(if prefix q p \<and> nodes d q = None then Some Dir else nodes d q)
                = (if prefix q p then Some Dir else nodes d q)"
      using dirReady_prefix[OF assms(2), of q] by auto
  qed
  then show ?thesis using True v nf
    by (simp add: ensureDir_def existsSync_def mkdirSync_def ensured_def)
next
  case False
  have "nodes d p = Some Dir" using dirReady_prefix[OF assms(2), of p] False by simp
  then have "existsSync p slash d" using assms(2) by (simp add: existsSync_def dirReady_def)
  then show ?thesis using ensured_same[OF assms False] by (simp add: ensureDir_def)
qed

lemma nodes_ensured [simp]: "nodes (ensured p d) q = (if prefix q p then Some Dir else nodes d q)"
  by (simp add: ensured_def)

lemma userData_ensured [simp]: "userData (ensured p d) = userData d"
  by (simp add: ensured_def)

lemma activeId_ensured [simp]: "activeId (ensured p d) = activeId d"
  by (simp add: ensured_def)

lemma fsAccepts_ensured [simp]: "fsAccepts (ensured p d) = fsAccepts d"
  by (simp add: ensured_def)

lemma fsAccepts_written [simp]: "fsAccepts (written p c d) = fsAccepts d"
  by (simp add: written_def)

lemma validPath_ensured [simp]: "validPath (ensured p d) q = validPath d q"
  by (simp add: validPath_def)

lemma validPath_written [simp]: "validPath (written p c d) q = validPath d q"
  by (simp add: validPath_def)

lemma nodes_written [simp]: "nodes (written p c d) q = (if q = p then Some (File c) else nodes d q)"
  by (simp add: written_def)

lemma userData_written [simp]: "userData (written p c d) = userData d"
  by (simp add: written_def)

lemma activeId_written [simp]: "activeId (written p c d) = activeId d"
  by (simp add: written_def)

lemma prefix_snoc_self [simp]: "\<not> prefix (p @ [c]) p"
  by (auto simp: prefix_def)

lemma ensured_idem: "ensured p (ensured p d) = ensured p d"
  by (cases d) (auto simp: ensured_def fun_eq_iff)

lemma treeLike_ensured: "treeLike d \<Longrightarrow> dirReady p d \<Longrightarrow> treeLike (ensured p d)"
  unfolding treeLike_def
proof (intro allI impI)
  fix q c
  assume t: "\<forall>p c. nodes d (p @ [c]) \<noteq> None \<longrightarrow> nodes d p = Some Dir"
    and r: "dirReady p d" and n: "nodes (ensured p d) (q @ [c]) \<noteq> None"
  show "nodes (ensured p d) q = Some Dir"
  proof (cases "prefix (q @ [c]) p")
    case True
    then have "prefix q p" by (meson append_prefixD)
    then show ?thesis by simp
  next
    case False
    then have "nodes d (q @ [c]) \<noteq> None" using n by simp
    then have "nodes d q = Some Dir" using t by blast
    then show ?thesis by simp
  qed
qed

lemma canHold_ensured: "canHold p fs d \<Longrightarrow> canHold p fs (ensured p d)"
  by (simp add: canHold_def dirReady_def list_all_iff)

lemma treeLike_written:
  assumes "treeLike d" "nodes d (butlast p) = Some Dir" "p \<noteq> []" "\<not> isDir (nodes d p)"
  shows "treeLike (written p c d)"
  unfolding treeLike_def
proof (intro allI impI)
  fix q x
  assume n: "nodes (written p c d) (q @ [x]) \<noteq> None"
  have qp: "q \<noteq> p"
  proof
    assume "q = p"
    then have "nodes d (p @ [x]) \<noteq> None" using n by simp
    then have "nodes d p = Some Dir" using treeLike_parent[OF assms(1)] by blast
    then show False using assms(4) by simp
  qed
  show "nodes (written p c d) q = Some Dir"
  proof (cases "q @ [x] = p")
    case True
    then have "butlast p = q" by auto
    then show ?thesis using assms(2) qp by simp
  next
    case False
    then have "nodes d (q @ [x]) \<noteq> None" using n by simp
    then show ?thesis using treeLike_parent[OF assms(1)] qp by simp
  qed
qed

lemma writeFileSync_eq:
  assumes "validPath d p" "p \<noteq> []" "nodes d (butlast p) = Some Dir" "\<not> isDir (nodes d p)"
  shows "writeFileSync p c d = (Inr (), written p c d)"
  using assms by (simp add: writeFileSync_def written_def)

lemma writeJSON_fs_eq:
  assumes "treeLike d" "canHold dir fs d" "f \<in> set fs"
  shows "writeJSON_fs (dir @ [f]) v d
         = (Inr (), written (dir @ [f]) (JsonText (Parses v)) (ensured dir d))"
proof -
  have r: "dirReady dir d" and nd: "\<not> isDir (nodes d (dir @ [f]))" and vf: "validPath d (dir @ [f])"
    using assms(2,3) by (auto simp: canHold_def list_all_iff)
  have "writeFileSync (dir @ [f]) (JsonText (Parses v)) (ensured dir d)
        = (Inr (), written (dir @ [f]) (JsonText (Parses v)) (ensured dir d))"
    using r nd vf by (intro writeFileSync_eq) simp_all
  then show ?thesis using ensureDir_eq[OF assms(1) r] by (simp add: writeJSON_fs_def)
qed

lemma readJSON_fs_ensured [simp]:
  "readJSON_fs (dir @ [f]) fb (ensured dir d) = readJSON_fs (dir @ [f]) fb d"
  by (simp add: readJSON_fs_def readFileSync_def)

lemma activeDir_ensured [simp]: "activeDir (ensured p d) = activeDir d"
  by (simp add: activeDir_def baseDataDir_def)

lemma baseDataDir_ensured [simp]: "baseDataDir (ensured p d) = baseDataDir d"
  by (simp add: baseDataDir_def)

lemma readProfileJSON_eq:
  assumes "treeLike d" "dirReady (activeDir d) d"
  shows "readProfileJSON name fb d
         = (Inr (readJSON_fs (activeDir d @ [name @ ''.json'']) fb d), ensured (activeDir d) d)"
  using ensureDir_eq[OF assms]
  by (simp add: readProfileJSON_def profilePath_def profileDir_def Let_def activeDir_def[symmetric])

lemma writeProfileJSON_eq:
  assumes "treeLike d" "canHold (activeDir d) fs d" "name @ ''.json'' \<in> set fs"
  shows "writeProfileJSON name v d
         = (Inr (), written (activeDir d @ [name @ ''.json'']) (JsonText (Parses v))
                      (ensured (activeDir d) d))"
proof -
  have r: "dirReady (activeDir d) d" using assms(2) by (simp add: canHold_def)
  have t1: "treeLike (ensured (activeDir d) d)" by (rule treeLike_ensured[OF assms(1) r])
  have c1: "canHold (activeDir d) fs (ensured (activeDir d) d)" by (rule canHold_ensured[OF assms(2)])
  have "writeJSON_fs (activeDir d @ [name @ ''.json'']) v (ensured (activeDir d) d)
        = (Inr (), written (activeDir d @ [name @ ''.json'']) (JsonText (Parses v))
                      (ensured (activeDir d) (ensured (activeDir d) d)))"
    by (rule writeJSON_fs_eq[OF t1 c1 assms(3)])
  moreover have "ensured (activeDir d) (ensured (activeDir d) d) = ensured (activeDir d) d"
    by (rule ensured_idem)
  ultimately show ?thesis using ensureDir_eq[OF assms(1) r]
    by (simp add: writeProfileJSON_def profilePath_def profileDir_def Let_def activeDir_def[symmetric])
qed


subsection \<open>Values the operations can work with\<close>

lemma fieldIs_notNull: "notNull x \<Longrightarrow> fieldIs k v x = Inr (fieldEq k v x)"
  by (cases x) (simp_all add: fieldIs_def fieldEq_def notNull_def)

lemma fieldIsNot_notNull: "notNull x \<Longrightarrow> fieldIsNot k v x = Inr (\<not> fieldEq k v x)"
  by (cases x) (simp_all add: fieldIsNot_def fieldEq_def notNull_def)

lemma some_js_notNull:
  "list_all notNull xs \<Longrightarrow> some_js (fieldIs k v) xs = Inr (list_ex (fieldEq k v) xs)"
  by (induction xs) (simp_all add: fieldIs_notNull)

lemma filter_js_notNull:
  "list_all notNull xs \<Longrightarrow> filter_js (fieldIsNot k v) xs = Inr (filter (\<lambda>x. \<not> fieldEq k v x) xs)"
  by (induction xs) (simp_all add: fieldIsNot_notNull)

lemma find_js_notNull:
  "list_all notNull xs \<Longrightarrow> find_js (fieldIs k v) xs = Inr (List.find (fieldEq k v) xs)"
  by (induction xs) (simp_all add: fieldIs_notNull)

lemma findIndex_js_notNull:
  "list_all notNull xs \<Longrightarrow> \<exists>r. findIndex_js (fieldIs k v) xs = Inr r"
proof (induction xs)
  case Nil then show ?case by simp
next
  case (Cons x xs)
  then obtain r where "findIndex_js (fieldIs k v) xs = Inr r" by auto
  then show ?case using Cons.prems by (cases r) (simp_all add: fieldIs_notNull)
qed

lemma isArrayOf_iff: "isArrayOf p v \<longleftrightarrow> (\<exists>xs. v = JArr xs \<and> list_all p xs)"
  by (cases v) simp_all

lemma historyMatches_total: "historyShape h \<Longrightarrow> \<exists>b. historyMatches lc q h = Inr b"
  by (auto simp: historyShape_def hasString_def historyMatches_def lowerIncludes_def
           split: sum.splits option.splits json.splits)

lemma filter_js_total:
  "list_all historyShape xs \<Longrightarrow> \<exists>ys. filter_js (historyMatches lc q) xs = Inr ys"
proof (induction xs)
  case Nil then show ?case by simp
next
  case (Cons x xs)
  then obtain ys where "filter_js (historyMatches lc q) xs = Inr ys" by auto
  moreover obtain b where "historyMatches lc q x = Inr b"
    using historyMatches_total Cons.prems by fastforce
  ultimately show ?case by simp
qed

subsection \<open>Domain stores of the profile-aware module\<close>

lemma returning_fs_Inr [simp]: "returning_fs (Inr v, d) = (Inr (Some v), d)"
  by (simp add: returning_fs_def)

lemma returning_void_fs_Inr [simp]: "returning_void_fs (Inr v, d) = (Inr None, d)"
  by (simp add: returning_void_fs_def)

lemma returning_bool_fs_Inr [simp]: "returning_bool_fs (Inr b, d) = (Inr (Some (JBool b)), d)"
  by (simp add: returning_bool_fs_def)

lemma run_profile_fs_safe:
  assumes t: "treeLike d" and c: "canHold (activeDir d) profileFiles d"
    and b: "isArrayOf notNull (readJSON_fs (activeDir d @ [''bookmarks.json'']) (JArr []) d)"
    and h: "isArrayOf historyShape (readJSON_fs (activeDir d @ [''history.json'']) (JArr []) d)"
    and dl: "isArrayOf notNull (readJSON_fs (activeDir d @ [''downloads.json'']) (JArr []) d)"
  shows "\<exists>v d'. run_profile_fs lc opn d = (Inr v, d')"
proof -
  have r: "dirReady (activeDir d) d" using c by (simp add: canHold_def)
  note R = readProfileJSON_eq[OF t r]
  have t1: "treeLike (ensured (activeDir d) d)" by (rule treeLike_ensured[OF t r])
  have c1: "canHold (activeDir (ensured (activeDir d) d)) profileFiles (ensured (activeDir d) d)"
    using canHold_ensured[OF c] by simp
  have W: "\<And>name v. name @ ''.json'' \<in> set profileFiles \<Longrightarrow> \<exists>d'. writeProfileJSON name v d = (Inr (), d')"
    using writeProfileJSON_eq[OF t c] by blast
  have W1: "\<And>name v. name @ ''.json'' \<in> set profileFiles \<Longrightarrow> \<exists>d'. writeProfileJSON name v (ensured (activeDir d) d) = (Inr (), d')"
    using writeProfileJSON_eq[OF t1 c1] by blast
  obtain bs where bs: "readJSON_fs (activeDir d @ [''bookmarks.json'']) (JArr []) d = JArr bs"
    "list_all notNull bs" using b by (auto simp: isArrayOf_iff)
  obtain hs where hs: "readJSON_fs (activeDir d @ [''history.json'']) (JArr []) d = JArr hs"
    "list_all historyShape hs" using h by (auto simp: isArrayOf_iff)
  obtain ds where ds: "readJSON_fs (activeDir d @ [''downloads.json'']) (JArr []) d = JArr ds"
    "list_all notNull ds" using dl by (auto simp: isArrayOf_iff)
  show ?thesis
  proof (cases opn)
    case GetBookmarks
    then show ?thesis by (simp add: getBookmarks_fs_def R)
  next
    case (AddBookmark url title now)
    obtain d' where "writeProfileJSON ''bookmarks'' (JArr (bs @ [mkBookmark url title now]))
                       (ensured (activeDir d) d) = (Inr (), d')"
      using W1[of "''bookmarks''"] by (auto simp: profileFiles_def)
    then show ?thesis using AddBookmark bs
      by (simp add: addBookmark_fs_def getBookmarks_fs_def R some_js_notNull Let_def)
  next
    case (RemoveBookmark url)
    obtain d' where "writeProfileJSON ''bookmarks'' (JArr (filter (\<lambda>x. \<not> fieldEq ''url'' url x) bs))
                       (ensured (activeDir d) d) = (Inr (), d')"
      using W1[of "''bookmarks''"] by (auto simp: profileFiles_def)
    then show ?thesis using RemoveBookmark bs
      by (simp add: removeBookmark_fs_def getBookmarks_fs_def R filter_js_notNull)
  next
    case (IsBookmarked url)
    then show ?thesis using bs
      by (simp add: isBookmarked_fs_def getBookmarks_fs_def R some_js_notNull)
  next
    case GetHistory
    then show ?thesis by (simp add: getHistory_fs_def R)
  next
    case (AddHistoryEntry url title now)
    obtain d' where "writeProfileJSON ''history''
        (JArr (if length (mkHistoryEntry url title now # hs) > 1000
               then take 1000 (mkHistoryEntry url title now # hs)
               else mkHistoryEntry url title now # hs))
        (ensured (activeDir d) d) = (Inr (), d')"
      using W1[of "''history''"] by (auto simp: profileFiles_def)
    then show ?thesis using AddHistoryEntry hs
      by (simp add: addHistoryEntry_fs_def getHistory_fs_def R Let_def)
  next
    case ClearHistory
    then show ?thesis using W[of "''history''" "JArr []"]
      by (auto simp: clearHistory_fs_def profileFiles_def)
  next
    case (SearchHistory query)
    obtain ys where "filter_js (historyMatches lc (lc query)) hs = Inr ys"
      using filter_js_total[OF hs(2)] by blast
    then show ?thesis using SearchHistory hs
      by (simp add: searchHistory_fs_def getHistory_fs_def R Let_def)
  next
    case (SaveSession tabs)
    then show ?thesis using W[of "''session''" "JArr (map SessionTab_json tabs)"]
      by (auto simp: saveSession_fs_def profileFiles_def)
  next
    case GetSession
    then show ?thesis by (simp add: getSession_fs_def R)
  next
    case GetDownloads
    then show ?thesis by (simp add: getDownloads_fs_def R)
  next
    case (SaveDownload item)
    obtain found where f: "findIndex_js (fieldIs ''id'' (ident item)) ds = Inr found"
      using findIndex_js_notNull[OF ds(2)] by blast
    obtain d' where "writeProfileJSON ''downloads''
        (JArr (let downloads = (case found of Some idx \<Rightarrow> ds[idx := DownloadItem_json item]
                                | None \<Rightarrow> DownloadItem_json item # ds)
               in if length downloads > 100 then take 100 downloads else downloads))
        (ensured (activeDir d) d) = (Inr (), d')"
      using W1[of "''downloads''"] by (auto simp: profileFiles_def)
    then show ?thesis using SaveDownload ds f
      by (simp add: saveDownload_fs_def getDownloads_fs_def R Let_def)
  next
    case ClearDownloads
    then show ?thesis using W[of "''downloads''" "JArr []"]
      by (auto simp: clearDownloads_fs_def profileFiles_def)
  qed
qed

lemma settings_fs_safe:
  assumes t: "treeLike d" and c: "canHold (activeDir d) profileFiles d"
  shows "\<exists>v d'. getSettings_fs d = (Inr v, d')"
    and "\<exists>v d'. updateSettings_fs partial d = (Inr v, d')"
proof -
  have r: "dirReady (activeDir d) d" using c by (simp add: canHold_def)
  note R = readProfileJSON_eq[OF t r]
  have t1: "treeLike (ensured (activeDir d) d)" by (rule treeLike_ensured[OF t r])
  have c1: "canHold (activeDir (ensured (activeDir d) d)) profileFiles (ensured (activeDir d) d)"
    using canHold_ensured[OF c] by simp
  show "\<exists>v d'. getSettings_fs d = (Inr v, d')" by (simp add: getSettings_fs_def R)
  have "\<And>v. \<exists>d'. writeProfileJSON ''settings'' v (ensured (activeDir d) d) = (Inr (), d')"
    using writeProfileJSON_eq[OF t1 c1, of "''settings''"] by (simp add: profileFiles_def)
  then obtain d' where "writeProfileJSON ''settings''
      (JObj (spreadOver (spreadOver [] (JObj (spreadOver (spreadOver [] (JObj defaultSettings))
         (readJSON_fs (activeDir d @ [''settings.json'']) (JObj []) d)))) partial))
      (ensured (activeDir d) d) = (Inr (), d')" by blast
  then show "\<exists>v d'. updateSettings_fs partial d = (Inr v, d')"
    by (simp add: updateSettings_fs_def getSettings_fs_def R Let_def)
qed


subsection \<open>Domain stores of the plain module\<close>

lemma storage_filePath_eq:
  assumes "treeLike d" "dirReady (baseDataDir d) d"
  shows "storage_filePath name d = (Inr (baseDataDir d @ [name @ ''.json'']), ensured (baseDataDir d) d)"
  using ensureDir_eq[OF assms] by (simp add: storage_filePath_def)

lemma storage_readJSON_fs_eq:
  assumes "treeLike d" "dirReady (baseDataDir d) d"
  shows "storage_readJSON_fs name fb d
         = (Inr (readJSON_fs (baseDataDir d @ [name @ ''.json'']) fb d), ensured (baseDataDir d) d)"
  by (simp add: storage_readJSON_fs_def storage_filePath_eq[OF assms])

lemma storage_writeJSON_fs_eq:
  assumes "treeLike d" "canHold (baseDataDir d) fs d" "name @ ''.json'' \<in> set fs"
  shows "storage_writeJSON_fs name v d
         = (Inr (), written (baseDataDir d @ [name @ ''.json'']) (JsonText (Parses v))
                      (ensured (baseDataDir d) d))"
proof -
  have r: "dirReady (baseDataDir d) d" and nd: "\<not> isDir (nodes d (baseDataDir d @ [name @ ''.json'']))"
    and vf: "validPath d (baseDataDir d @ [name @ ''.json''])"
    using assms(2,3) by (auto simp: canHold_def list_all_iff)
  have "writeFileSync (baseDataDir d @ [name @ ''.json'']) (JsonText (Parses v)) (ensured (baseDataDir d) d)
        = (Inr (), written (baseDataDir d @ [name @ ''.json'']) (JsonText (Parses v)) (ensured (baseDataDir d) d))"
    using r nd vf by (intro writeFileSync_eq) simp_all
  then show ?thesis by (simp add: storage_writeJSON_fs_def storage_filePath_eq[OF assms(1) r])
qed

lemma run_storage_fs_safe:
  assumes t: "treeLike d" and c: "canHold (baseDataDir d) baseFiles d"
    and b: "isArrayOf notNull (readJSON_fs (baseDataDir d @ [''bookmarks.json'']) (JArr []) d)"
    and h: "isArrayOf historyShape (readJSON_fs (baseDataDir d @ [''history.json'']) (JArr []) d)"
    and dl: "isArrayOf notNull (readJSON_fs (baseDataDir d @ [''downloads.json'']) (JArr []) d)"
  shows "\<exists>v d'. run_storage_fs lc opn d = (Inr v, d')"
proof -
  have r: "dirReady (baseDataDir d) d" using c by (simp add: canHold_def)
  note R = storage_readJSON_fs_eq[OF t r]
  have t1: "treeLike (ensured (baseDataDir d) d)" by (rule treeLike_ensured[OF t r])
  have c1: "canHold (baseDataDir (ensured (baseDataDir d) d)) baseFiles (ensured (baseDataDir d) d)"
    using canHold_ensured[OF c] by simp
  have W: "\<And>name v. name @ ''.json'' \<in> set baseFiles \<Longrightarrow> \<exists>d'. storage_writeJSON_fs name v d = (Inr (), d')"
    using storage_writeJSON_fs_eq[OF t c] by blast
  have W1: "\<And>name v. name @ ''.json'' \<in> set baseFiles \<Longrightarrow> \<exists>d'. storage_writeJSON_fs name v (ensured (baseDataDir d) d) = (Inr (), d')"
    using storage_writeJSON_fs_eq[OF t1 c1] by blast
  obtain bs where bs: "readJSON_fs (baseDataDir d @ [''bookmarks.json'']) (JArr []) d = JArr bs"
    "list_all notNull bs" using b by (auto simp: isArrayOf_iff)
  obtain hs where hs: "readJSON_fs (baseDataDir d @ [''history.json'']) (JArr []) d = JArr hs"
    "list_all historyShape hs" using h by (auto simp: isArrayOf_iff)
  obtain ds where ds: "readJSON_fs (baseDataDir d @ [''downloads.json'']) (JArr []) d = JArr ds"
    "list_all notNull ds" using dl by (auto simp: isArrayOf_iff)
  show ?thesis
  proof (cases opn)
    case GetBookmarks
    then show ?thesis by (simp add: storage_getBookmarks_fs_def R)
  next
    case (AddBookmark url title now)
    obtain d' where "storage_writeJSON_fs ''bookmarks'' (JArr (bs @ [mkBookmark url title now]))
                       (ensured (baseDataDir d) d) = (Inr (), d')"
      using W1[of "''bookmarks''"] by (auto simp: profileFiles_def baseFiles_def)
    then show ?thesis using AddBookmark bs
      by (simp add: storage_addBookmark_fs_def storage_getBookmarks_fs_def R some_js_notNull Let_def)
  next
    case (RemoveBookmark url)
    obtain d' where "storage_writeJSON_fs ''bookmarks'' (JArr (filter (\<lambda>x. \<not> fieldEq ''url'' url x) bs))
                       (ensured (baseDataDir d) d) = (Inr (), d')"
      using W1[of "''bookmarks''"] by (auto simp: profileFiles_def baseFiles_def)
    then show ?thesis using RemoveBookmark bs
      by (simp add: storage_removeBookmark_fs_def storage_getBookmarks_fs_def R filter_js_notNull)
  next
    case (IsBookmarked url)
    then show ?thesis using bs
      by (simp add: storage_isBookmarked_fs_def storage_getBookmarks_fs_def R some_js_notNull)
  next
    case GetHistory
    then show ?thesis by (simp add: storage_getHistory_fs_def R)
  next
    case (AddHistoryEntry url title now)
    obtain d' where "storage_writeJSON_fs ''history''
        (JArr (if length (mkHistoryEntry url title now # hs) > 1000
               then take 1000 (mkHistoryEntry url title now # hs)
               else mkHistoryEntry url title now # hs))
        (ensured (baseDataDir d) d) = (Inr (), d')"
      using W1[of "''history''"] by (auto simp: profileFiles_def baseFiles_def)
    then show ?thesis using AddHistoryEntry hs
      by (simp add: storage_addHistoryEntry_fs_def storage_getHistory_fs_def R Let_def)
  next
    case ClearHistory
    then show ?thesis using W[of "''history''" "JArr []"]
      by (auto simp: storage_clearHistory_fs_def profileFiles_def baseFiles_def)
  next
    case (SearchHistory query)
    obtain ys where "filter_js (historyMatches lc (lc query)) hs = Inr ys"
      using filter_js_total[OF hs(2)] by blast
    then show ?thesis using SearchHistory hs
      by (simp add: storage_searchHistory_fs_def storage_getHistory_fs_def R Let_def)
  next
    case (SaveSession tabs)
    then show ?thesis using W[of "''session''" "JArr (map SessionTab_json tabs)"]
      by (auto simp: storage_saveSession_fs_def profileFiles_def baseFiles_def)
  next
    case GetSession
    then show ?thesis by (simp add: storage_getSession_fs_def R)
  next
    case GetDownloads
    then show ?thesis by (simp add: storage_getDownloads_fs_def R)
  next
    case (SaveDownload item)
    obtain found where f: "findIndex_js (fieldIs ''id'' (ident item)) ds = Inr found"
      using findIndex_js_notNull[OF ds(2)] by blast
    obtain d' where "storage_writeJSON_fs ''downloads''
        (JArr (let downloads = (case found of Some idx \<Rightarrow> ds[idx := DownloadItem_json item]
                                | None \<Rightarrow> DownloadItem_json item # ds)
               in if length downloads > 100 then take 100 downloads else downloads))
        (ensured (baseDataDir d) d) = (Inr (), d')"
      using W1[of "''downloads''"] by (auto simp: profileFiles_def baseFiles_def)
    then show ?thesis using SaveDownload ds f
      by (simp add: storage_saveDownload_fs_def storage_getDownloads_fs_def R Let_def)
  next
    case ClearDownloads
    then show ?thesis using W[of "''downloads''" "JArr []"]
      by (auto simp: storage_clearDownloads_fs_def profileFiles_def baseFiles_def)
  qed
qed

lemma storage_settings_fs_safe:
  assumes t: "treeLike d" and c: "canHold (baseDataDir d) baseFiles d"
  shows "\<exists>v d'. storage_getSettings_fs d = (Inr v, d')"
    and "\<exists>v d'. storage_updateSettings_fs partial d = (Inr v, d')"
proof -
  have r: "dirReady (baseDataDir d) d" using c by (simp add: canHold_def)
  note R = storage_readJSON_fs_eq[OF t r]
  have t1: "treeLike (ensured (baseDataDir d) d)" by (rule treeLike_ensured[OF t r])
  have c1: "canHold (baseDataDir (ensured (baseDataDir d) d)) baseFiles (ensured (baseDataDir d) d)"
    using canHold_ensured[OF c] by simp
  show "\<exists>v d'. storage_getSettings_fs d = (Inr v, d')" by (simp add: storage_getSettings_fs_def R)
  have "\<And>v. \<exists>d'. storage_writeJSON_fs ''settings'' v (ensured (baseDataDir d) d) = (Inr (), d')"
    using storage_writeJSON_fs_eq[OF t1 c1, of "''settings''"] by (simp add: profileFiles_def baseFiles_def)
  then obtain d' where "storage_writeJSON_fs ''settings''
      (JObj (spreadOver (spreadOver [] (JObj (spreadOver (spreadOver [] (JObj storage_defaultSettings))
         (readJSON_fs (baseDataDir d @ [''settings.json'']) (JObj []) d)))) partial))
      (ensured (baseDataDir d) d) = (Inr (), d')" by blast
  then show "\<exists>v d'. storage_updateSettings_fs partial d = (Inr v, d')"
    by (simp add: storage_updateSettings_fs_def storage_getSettings_fs_def R Let_def)
qed


subsection \<open>The profile document\<close>

lemma globalPath_eq:
  assumes "treeLike d" "dirReady (baseDataDir d) d"
  shows "globalPath name d = (Inr (baseDataDir d @ [name @ ''.json'']), ensured (baseDataDir d) d)"
  using ensureDir_eq[OF assms] by (simp add: globalPath_def)

lemma readGlobalJSON_eq:
  assumes "treeLike d" "dirReady (baseDataDir d) d"
  shows "readGlobalJSON name fb d
         = (Inr (readJSON_fs (baseDataDir d @ [name @ ''.json'']) fb d), ensured (baseDataDir d) d)"
  by (simp add: readGlobalJSON_def globalPath_eq[OF assms])

lemma writeGlobalJSON_eq:
  assumes "treeLike d" "canHold (baseDataDir d) fs d" "name @ ''.json'' \<in> set fs"
  shows "writeGlobalJSON name v d
         = (Inr (), written (baseDataDir d @ [name @ ''.json'']) (JsonText (Parses v))
                      (ensured (baseDataDir d) d))"
proof -
  have r: "dirReady (baseDataDir d) d" using assms(2) by (simp add: canHold_def)
  have t1: "treeLike (ensured (baseDataDir d) d)" by (rule treeLike_ensured[OF assms(1) r])
  have c1: "canHold (baseDataDir d) fs (ensured (baseDataDir d) d)" by (rule canHold_ensured[OF assms(2)])
  have "writeJSON_fs (baseDataDir d @ [name @ ''.json'']) v (ensured (baseDataDir d) d)
        = (Inr (), written (baseDataDir d @ [name @ ''.json'']) (JsonText (Parses v))
                      (ensured (baseDataDir d) (ensured (baseDataDir d) d)))"
    by (rule writeJSON_fs_eq[OF t1 c1 assms(3)])
  then show ?thesis by (simp add: writeGlobalJSON_def globalPath_eq[OF assms(1) r] ensured_idem)
qed

lemma baseDataDir_written [simp]: "baseDataDir (written p c d) = baseDataDir d"
  by (simp add: baseDataDir_def)

lemma activeDir_written [simp]: "activeDir (written p c d) = activeDir d"
  by (simp add: activeDir_def)

lemma treeLike_put:
  assumes "treeLike d" "canHold dir fs d" "f \<in> set fs"
  shows "treeLike (written (dir @ [f]) c (ensured dir d))"
proof -
  have r: "dirReady dir d" and nd: "\<not> isDir (nodes d (dir @ [f]))"
    using assms(2,3) by (auto simp: canHold_def list_all_iff)
  show ?thesis using nd by (intro treeLike_written treeLike_ensured[OF assms(1) r]) simp_all
qed

lemma canHold_put:
  assumes "canHold dir fs d"
  shows "canHold dir fs (written (dir @ [f]) c (ensured dir d))"
  using assms by (auto simp: canHold_def dirReady_def list_all_iff)

lemma profilesDoc_ensured [simp]: "profilesDoc (ensured (baseDataDir d) d) = profilesDoc d"
  by (simp add: profilesDoc_def)

lemma profilesDoc_put:
  "validPath d (baseDataDir d @ [''profiles.json'']) \<Longrightarrow>
   profilesDoc (written (baseDataDir d @ [''profiles.json'']) (JsonText (Parses v)) (ensured (baseDataDir d) d)) = v"
  by (simp add: profilesDoc_def readJSON_fs_def readFileSync_def)

lemma ensured_put:
  assumes "treeLike d" "canHold dir fs d" "f \<in> set fs"
  shows "ensured dir (written (dir @ [f]) c (ensured dir d)) = written (dir @ [f]) c (ensured dir d)"
proof -
  have "dirReady dir (written (dir @ [f]) c (ensured dir d))"
    using canHold_put[OF assms(2)] by (simp add: canHold_def)
  then show ?thesis by (intro ensured_same treeLike_put[OF assms]) simp_all
qed

lemma getProfiles_fs_eq:
  assumes "treeLike d" "canHold (baseDataDir d) [''profiles.json''] d"
  shows "getProfiles_fs now d =
     (case lengthIsZero (profilesDoc d) of
        Inl e \<Rightarrow> (Inl e, ensured (baseDataDir d) d)
      | Inr z \<Rightarrow>
          if z then (Inr (JArr [mkProfile ''default'' ''Default'' ''person'' now True]),
                     written (baseDataDir d @ [''profiles.json''])
                       (JsonText (Parses (JArr [mkProfile ''default'' ''Default'' ''person'' now True])))
                       (ensured (baseDataDir d) d))
          else (Inr (profilesDoc d), ensured (baseDataDir d) d))"
proof -
  note c = assms(2)
  have r: "dirReady (baseDataDir d) d" using c by (simp add: canHold_def)
  have t1: "treeLike (ensured (baseDataDir d) d)" by (rule treeLike_ensured[OF assms(1) r])
  have c1: "canHold (baseDataDir (ensured (baseDataDir d) d)) [''profiles.json''] (ensured (baseDataDir d) d)"
    using canHold_ensured[OF c] by simp
  have W: "\<And>v. writeGlobalJSON ''profiles'' v (ensured (baseDataDir d) d)
       = (Inr (), written (baseDataDir d @ [''profiles.json'']) (JsonText (Parses v)) (ensured (baseDataDir d) d))"
    using writeGlobalJSON_eq[OF t1 c1, of "''profiles''"] by (simp add: ensured_idem)
  show ?thesis
    by (simp add: getProfiles_fs_def readGlobalJSON_eq[OF assms(1) r] W Let_def
                  profilesDoc_def[symmetric] split: sum.splits)
qed

lemma notNull_mkProfile [simp]: "notNull (mkProfile pid name avatar now df)"
  by (simp add: notNull_def mkProfile_def Profile_json_def)

lemma lengthIsZero_array: "lengthIsZero v = Inr False \<Longrightarrow> profilesShape v \<Longrightarrow> \<exists>ps. v = JArr ps \<and> ps \<noteq> [] \<and> list_all notNull ps"
  by (cases v) (auto simp: profilesShape_def)

lemma profilesShape_total: "profilesShape v \<Longrightarrow> \<exists>z. lengthIsZero v = Inr z"
  by (cases v) (auto simp: profilesShape_def)

lemma getProfiles_fs_ok:
  assumes t: "treeLike d" and c: "canHold (baseDataDir d) fs d" and m: "''profiles.json'' \<in> set fs"
    and sh: "profilesShape (profilesDoc d)"
  shows "\<exists>ps d1. getProfiles_fs now d = (Inr (JArr ps), d1)
           \<and> list_all notNull ps \<and> ps \<noteq> []
           \<and> (profilesDoc d = JArr ps \<or> ps = [mkProfile ''default'' ''Default'' ''person'' now True])
           \<and> (lengthIsZero (profilesDoc d) = Inr False \<longrightarrow> profilesDoc d = JArr ps)
           \<and> treeLike d1 \<and> canHold (baseDataDir d1) fs d1 \<and> profilesDoc d1 = JArr ps
           \<and> userData d1 = userData d \<and> activeId d1 = activeId d
           \<and> (\<forall>now'. getProfiles_fs now' d1 = (Inr (JArr ps), d1))"
proof -
  have cp: "canHold (baseDataDir d) [''profiles.json''] d" and v: "validPath d (baseDataDir d @ [''profiles.json''])"
    and r: "dirReady (baseDataDir d) d"
    using c m by (auto simp: canHold_def list_all_iff)
  note E = getProfiles_fs_eq[OF t cp]
  obtain z where z: "lengthIsZero (profilesDoc d) = Inr z" using profilesShape_total[OF sh] by blast
  show ?thesis
  proof (cases z)
    case True
    let ?def = "mkProfile ''default'' ''Default'' ''person'' now True"
    let ?d1 = "written (baseDataDir d @ [''profiles.json'']) (JsonText (Parses (JArr [?def]))) (ensured (baseDataDir d) d)"
    have t1: "treeLike ?d1" by (rule treeLike_put[OF t c m])
    have c1: "canHold (baseDataDir ?d1) fs ?d1" using canHold_put[OF c] by simp
    have p1: "profilesDoc ?d1 = JArr [?def]" by (rule profilesDoc_put[OF v])
    have cp1: "canHold (baseDataDir ?d1) [''profiles.json''] ?d1"
      using c1 m by (auto simp: canHold_def list_all_iff)
    have e1: "ensured (baseDataDir ?d1) ?d1 = ?d1" using ensured_put[OF t c m] by simp
    have st: "\<And>now'. getProfiles_fs now' ?d1 = (Inr (JArr [?def]), ?d1)"
      using getProfiles_fs_eq[OF t1 cp1] p1 e1 by simp
    have "getProfiles_fs now d = (Inr (JArr [?def]), ?d1)" using E z True by simp
    then show ?thesis using t1 c1 p1 st z True by (intro exI[of _ "[?def]"] exI[of _ ?d1]) simp
  next
    case False
    then obtain ps where ps: "profilesDoc d = JArr ps" "ps \<noteq> []" "list_all notNull ps"
      using lengthIsZero_array[OF _ sh] z by auto
    let ?d1 = "ensured (baseDataDir d) d"
    have t1: "treeLike ?d1" by (rule treeLike_ensured[OF t r])
    have c1: "canHold (baseDataDir ?d1) fs ?d1" using canHold_ensured[OF c] by simp
    have cp1: "canHold (baseDataDir ?d1) [''profiles.json''] ?d1"
      using c1 m by (auto simp: canHold_def list_all_iff)
    have st: "\<And>now'. getProfiles_fs now' ?d1 = (Inr (JArr ps), ?d1)"
      using getProfiles_fs_eq[OF t1 cp1] ps by (simp add: ensured_idem)
    have "getProfiles_fs now d = (Inr (JArr ps), ?d1)" using E z False ps by simp
    then show ?thesis using t1 c1 ps st by (intro exI[of _ ps] exI[of _ ?d1]) simp
  qed
qed


subsection \<open>Removal\<close>

lemma nodes_removeTree [simp]: "nodes (removeTree T d) q = (if prefix T q then None else nodes d q)"
  by (simp add: removeTree_def)

lemma userData_removeTree [simp]: "userData (removeTree T d) = userData d"
  by (simp add: removeTree_def)

lemma activeId_removeTree [simp]: "activeId (removeTree T d) = activeId d"
  by (simp add: removeTree_def)

lemma nodes_removePart [simp]:
  "nodes (removePart T gone d) q = (if \<exists>r. prefix r q \<and> prefix T r \<and> gone r then None else nodes d q)"
  by (auto simp: removePart_def list_ex_iff)

lemma userData_removePart [simp]: "userData (removePart T gone d) = userData d"
  by (simp add: removePart_def)

lemma activeId_removePart [simp]: "activeId (removePart T gone d) = activeId d"
  by (simp add: removePart_def)

text \<open>A disk that has only lost nodes, whole subtrees at a time.\<close>

lemma treeLike_shrunk:
  assumes "treeLike d"
    and "\<And>q. nodes d' q = (if gone q then None else nodes d q)"
    and "\<And>q c. gone q \<Longrightarrow> gone (q @ [c])"
  shows "treeLike d'"
  unfolding treeLike_def
proof (intro allI impI)
  fix p c assume n: "nodes d' (p @ [c]) \<noteq> None"
  then have g: "\<not> gone (p @ [c])" and "nodes d (p @ [c]) \<noteq> None" using assms(2) by (auto split: if_splits)
  then have "nodes d p = Some Dir" using treeLike_parent[OF assms(1)] by blast
  moreover have "\<not> gone p" using g assms(3) by blast
  ultimately show "nodes d' p = Some Dir" using assms(2) by simp
qed

lemma treeLike_removeTree: "treeLike d \<Longrightarrow> treeLike (removeTree T d)"
  by (rule treeLike_shrunk[where gone = "prefix T"]) (auto simp: prefix_def)

lemma treeLike_removePart: "treeLike d \<Longrightarrow> treeLike (removePart T gone d)"
proof (rule treeLike_shrunk[where gone = "\<lambda>q. \<exists>r. prefix r q \<and> prefix T r \<and> gone r"])
  fix q c assume "\<exists>r. prefix r q \<and> prefix T r \<and> gone r"
  then show "\<exists>r. prefix r (q @ [c]) \<and> prefix T r \<and> gone r" by (meson prefix_order.trans prefixI)
qed simp_all

lemma canHold_shrunk:
  assumes "canHold dir fs d" "\<And>q. nodes d' q = nodes d q \<or> nodes d' q = None"
    and "fsAccepts d' = fsAccepts d"
  shows "canHold dir fs d'"
proof -
  have "\<And>q. validPath d' q = validPath d q" using assms(3) by (simp add: validPath_def)
  moreover
  have "\<And>q. \<not> isFile (nodes d q) \<Longrightarrow> \<not> isFile (nodes d' q)" using assms(2) by (metis isFile.simps(2))
  moreover have "\<And>q. \<not> isDir (nodes d q) \<Longrightarrow> \<not> isDir (nodes d' q)" using assms(2) by (metis isDir.simps(2))
  ultimately show ?thesis using assms(1) by (auto simp: canHold_def dirReady_def list_all_iff)
qed

lemma baseDataDir_removeTree [simp]: "baseDataDir (removeTree T d) = baseDataDir d"
  by (simp add: baseDataDir_def)

lemma baseDataDir_removePart [simp]: "baseDataDir (removePart T gone d) = baseDataDir d"
  by (simp add: baseDataDir_def)

lemma canHold_removeTree: "canHold dir fs d \<Longrightarrow> canHold dir fs (removeTree T d)"
  by (erule canHold_shrunk) (simp_all add: removeTree_def)

lemma canHold_removePart: "canHold dir fs d \<Longrightarrow> canHold dir fs (removePart T gone d)"
  by (erule canHold_shrunk) (simp_all add: removePart_def)

lemma validPath_removeTree [simp]: "validPath (removeTree T d) q = validPath d q"
  by (simp add: validPath_def removeTree_def)

lemma validPath_removePart [simp]: "validPath (removePart T gone d) q = validPath d q"
  by (simp add: validPath_def removePart_def)

lemma validPath_activeId [simp]: "validPath (d\<lparr> activeId := x \<rparr>) q = validPath d q"
  by (simp add: validPath_def)

lemma profilesDoc_removeTree:
  "profilesDoc (removeTree T d) = profilesDoc d \<or> profilesDoc (removeTree T d) = JArr []"
  by (simp add: profilesDoc_def readJSON_fs_def readFileSync_def)

lemma profilesDoc_removePart:
  "profilesDoc (removePart T gone d) = profilesDoc d \<or> profilesDoc (removePart T gone d) = JArr []"
  by (simp add: profilesDoc_def readJSON_fs_def readFileSync_def)

lemma treeLike_activeId [simp]: "treeLike (d\<lparr> activeId := x \<rparr>) = treeLike d"
  by (simp add: treeLike_def)

lemma baseDataDir_activeId [simp]: "baseDataDir (d\<lparr> activeId := x \<rparr>) = baseDataDir d"
  by (simp add: baseDataDir_def)

lemma canHold_activeId [simp]: "canHold dir fs (d\<lparr> activeId := x \<rparr>) = canHold dir fs d"
  by (simp add: canHold_def dirReady_def)

lemma profilesDoc_activeId [simp]: "profilesDoc (d\<lparr> activeId := x \<rparr>) = profilesDoc d"
  by (simp add: profilesDoc_def readJSON_fs_def readFileSync_def)

text \<open>What \<^verbatim>\<open>deleteProfile\<close> comes to for an id other than \<^verbatim>\<open>"default"\<close>.\<close>

lemma deleteProfile_fs_cases:
  assumes t: "treeLike d" and c: "canHold (baseDataDir d) fs d" and m: "''profiles.json'' \<in> set fs"
    and sh: "profilesShape (profilesDoc d)" and nd: "pid \<noteq> ''default''"
  shows "\<exists>ps d5. list_all notNull ps \<and> ps \<noteq> []
           \<and> (profilesDoc d = JArr ps \<or> ps = [mkProfile ''default'' ''Default'' ''person'' now0 True])
           \<and> treeLike d5 \<and> canHold (baseDataDir d5) fs d5
           \<and> userData d5 = userData d \<and> activeId d5 = activeId d
           \<and> (profilesDoc d5 = JArr (filter (\<lambda>x. \<not> fieldEq ''id'' pid x) ps) \<or> profilesDoc d5 = JArr [])
           \<and> (deleteProfile_fs pid now0 now1 env d = (Inl FsError, d5)
                \<and> \<not> prefix (userData d) (joinPath (baseDataDir d @ [''profiles'']) pid)
                \<and> env \<noteq> RmCompleted
              \<or> deleteProfile_fs pid now0 now1 env d
                  = getProfiles_fs now1 (if activeId d5 = pid then d5\<lparr> activeId := ''default'' \<rparr> else d5))"
proof -
  obtain ps d1 where g: "getProfiles_fs now0 d = (Inr (JArr ps), d1)" "list_all notNull ps" "ps \<noteq> []"
      "profilesDoc d = JArr ps \<or> ps = [mkProfile ''default'' ''Default'' ''person'' now0 True]"
      "treeLike d1" "canHold (baseDataDir d1) fs d1" "userData d1 = userData d" "activeId d1 = activeId d"
    using getProfiles_fs_ok[OF t c m sh, of now0] by blast
  let ?ps' = "filter (\<lambda>x. \<not> fieldEq ''id'' pid x) ps"
  let ?B = "baseDataDir d"
  have B1: "baseDataDir d1 = ?B" using g(7) by (simp add: baseDataDir_def)
  let ?d2 = "written (?B @ [''profiles.json'']) (JsonText (Parses (JArr ?ps'))) (ensured ?B d1)"
  have c1: "canHold ?B fs d1" using g(6) B1 by simp
  have w: "writeGlobalJSON ''profiles'' (JArr ?ps') d1 = (Inr (), ?d2)"
    using writeGlobalJSON_eq[OF g(5,6), of "''profiles''"] m B1 by simp
  have t2: "treeLike ?d2" by (rule treeLike_put[OF g(5) c1 m])
  have c2: "canHold ?B fs ?d2" by (rule canHold_put[OF c1])
  have v: "validPath d1 (?B @ [''profiles.json''])" using c1 m by (auto simp: canHold_def list_all_iff)
  have p2: "profilesDoc ?d2 = JArr ?ps'" using profilesDoc_put[of d1 "JArr ?ps'"] v B1 by simp
  have u2: "userData ?d2 = userData d" "activeId ?d2 = activeId d" "baseDataDir ?d2 = ?B"
    using g(7,8) B1 by simp_all
  let ?T = "joinPath (?B @ [''profiles'']) pid"
  let ?go = "\<lambda>d5. getProfiles_fs now1 (if activeId d5 = pid then d5\<lparr> activeId := ''default'' \<rparr> else d5)"
  have D: "deleteProfile_fs pid now0 now1 env d
           = thenDo (if existsSync ?T (trailingSlash pid) ?d2 then rmSync ?T env ?d2 else (Inr (), ?d2))
               (\<lambda>_. ?go)"
    using nd g(1,2) w B1 by (simp add: deleteProfile_fs_def filter_js_notNull Let_def)
  consider (kept) "\<not> existsSync ?T (trailingSlash pid) ?d2"
    | (removed) "existsSync ?T (trailingSlash pid) ?d2" "prefix (userData d) ?T \<or> env = RmCompleted"
    | (refused) gone where "existsSync ?T (trailingSlash pid) ?d2" "\<not> prefix (userData d) ?T" "env = RmFailed gone"
    by (cases env) auto
  then show ?thesis
  proof cases
    case kept
    then have "deleteProfile_fs pid now0 now1 env d = ?go ?d2" using D by simp
    then show ?thesis using g(2,3,4) t2 c2 p2 u2
      by (intro exI[of _ ps] exI[of _ ?d2]) simp
  next
    case removed
    then have "rmSync ?T env ?d2 = (Inr (), removeTree ?T ?d2)"
      using u2(1) by (cases env) (auto simp: rmSync_def)
    then have "deleteProfile_fs pid now0 now1 env d = ?go (removeTree ?T ?d2)" using D removed(1) by simp
    moreover have "treeLike (removeTree ?T ?d2)" by (rule treeLike_removeTree[OF t2])
    moreover have "canHold ?B fs (removeTree ?T ?d2)" by (rule canHold_removeTree[OF c2])
    moreover have "profilesDoc (removeTree ?T ?d2) = JArr ?ps' \<or> profilesDoc (removeTree ?T ?d2) = JArr []"
      using profilesDoc_removeTree[of ?T ?d2] p2 by simp
    ultimately show ?thesis using g(2,3,4) u2
      by (intro exI[of _ ps] exI[of _ "removeTree ?T ?d2"]) simp
  next
    case refused
    then have "rmSync ?T env ?d2 = (Inl FsError, removePart ?T gone ?d2)"
      using u2(1) by (simp add: rmSync_def)
    then have "deleteProfile_fs pid now0 now1 env d = (Inl FsError, removePart ?T gone ?d2)"
      using D refused(1) by simp
    moreover have "treeLike (removePart ?T gone ?d2)" by (rule treeLike_removePart[OF t2])
    moreover have "canHold ?B fs (removePart ?T gone ?d2)" by (rule canHold_removePart[OF c2])
    moreover have "profilesDoc (removePart ?T gone ?d2) = JArr ?ps' \<or> profilesDoc (removePart ?T gone ?d2) = JArr []"
      using profilesDoc_removePart[of ?T gone ?d2] p2 by simp
    ultimately show ?thesis using g(2,3,4) u2 refused(2,3)
      by (intro exI[of _ ps] exI[of _ "removePart ?T gone ?d2"]) simp
  qed
qed

lemma run_profiles_safe:
  assumes t: "treeLike d" and c: "canHold (baseDataDir d) fs d" and m: "''profiles.json'' \<in> set fs"
    and sh: "profilesShape (profilesDoc d)" and rs: "removal_settled (Profiles opn) d"
  shows "\<exists>v d'. run_profiles opn d = (Inr v, d')"
proof (cases opn)
  case (GetProfiles now)
  then show ?thesis using getProfiles_fs_ok[OF t c m sh, of now] by auto
next
  case (CreateProfile name avatar now0 stamp rnd now)
  obtain ps d1 where g: "getProfiles_fs now0 d = (Inr (JArr ps), d1)" "treeLike d1"
      "canHold (baseDataDir d1) fs d1"
    using getProfiles_fs_ok[OF t c m sh, of now0] by blast
  have "\<exists>d'. writeGlobalJSON ''profiles''
          (JArr (ps @ [mkProfile (''profile-'' @ stamp @ ''-'' @ rnd) name avatar now False])) d1 = (Inr (), d')"
    using writeGlobalJSON_eq[OF g(2,3), of "''profiles''"] m by simp
  then show ?thesis using CreateProfile g(1) by (auto simp: createProfile_fs_def Let_def)
next
  case (DeleteProfile pid now0 now1 env)
  show ?thesis
  proof (cases "pid = ''default''")
    case True
    then show ?thesis using DeleteProfile getProfiles_fs_ok[OF t c m sh, of now0]
      by (auto simp: deleteProfile_fs_def)
  next
    case False
    obtain ps d5 where k: "list_all notNull ps" "treeLike d5" "canHold (baseDataDir d5) fs d5"
        "userData d5 = userData d"
        "profilesDoc d5 = JArr (filter (\<lambda>x. \<not> fieldEq ''id'' pid x) ps) \<or> profilesDoc d5 = JArr []"
        "deleteProfile_fs pid now0 now1 env d = (Inl FsError, d5)
           \<and> \<not> prefix (userData d) (joinPath (baseDataDir d @ [''profiles'']) pid) \<and> env \<noteq> RmCompleted
         \<or> deleteProfile_fs pid now0 now1 env d
             = getProfiles_fs now1 (if activeId d5 = pid then d5\<lparr> activeId := ''default'' \<rparr> else d5)"
      using deleteProfile_fs_cases[OF t c m sh False, of now0 now1 env] by blast
    let ?d6 = "if activeId d5 = pid then d5\<lparr> activeId := ''default'' \<rparr> else d5"
    have e: "deleteProfile_fs pid now0 now1 env d = getProfiles_fs now1 ?d6"
      using k(6) rs DeleteProfile False by auto
    have "profilesShape (profilesDoc d5)" using k(1,5) by (auto simp: profilesShape_def list_all_iff)
    then have "\<exists>ps' d'. getProfiles_fs now1 ?d6 = (Inr (JArr ps'), d')"
      using getProfiles_fs_ok[of ?d6 fs now1] k(2,3) m by auto
    then show ?thesis using DeleteProfile e by auto
  qed
next
  case (SwitchProfile pid now)
  obtain ps d1 where g: "getProfiles_fs now d = (Inr (JArr ps), d1)" "list_all notNull ps"
    using getProfiles_fs_ok[OF t c m sh, of now] by blast
  then show ?thesis using SwitchProfile
    by (auto simp: switchProfile_fs_def find_js_notNull split: option.splits)
next
  case (GetActiveProfile now)
  obtain ps d1 where g: "getProfiles_fs now d = (Inr (JArr ps), d1)" "list_all notNull ps"
    using getProfiles_fs_ok[OF t c m sh, of now] by blast
  then show ?thesis using GetActiveProfile
    by (auto simp: getActiveProfile_fs_def find_js_notNull split: option.splits)
qed


subsection \<open>Trees\<close>

text \<open>Every call into \<^verbatim>\<open>fs\<close> leaves a tree a tree, whether it succeeds or throws.\<close>

lemma treeLike_mkdirSync: "treeLike d \<Longrightarrow> treeLike (snd (mkdirSync p d))"
proof (cases "validPath d p \<and> list_all (\<lambda>q. \<not> isFile (nodes d q)) (prefixes p)")
  case False
  assume "treeLike d"
  then show ?thesis using False by (auto simp: mkdirSync_def)
next
  case True
  assume t: "treeLike d"
  have r: "dirReady p d" using True by (simp add: dirReady_def list_all_iff)
  have "(\<lambda>q. if prefix q p \<and> nodes d q = None then Some Dir else nodes d q)
        = (\<lambda>q. if prefix q p then Some Dir else nodes d q)"
  proof (intro ext)
    fix q show "(if prefix q p \<and> nodes d q = None then Some Dir else nodes d q)
                = (if prefix q p then Some Dir else nodes d q)"
      using dirReady_prefix[OF r, of q] by auto
  qed
  then have "snd (mkdirSync p d) = ensured p d" using True by (simp add: mkdirSync_def ensured_def)
  then show ?thesis using treeLike_ensured[OF t r] by simp
qed

lemma treeLike_writeFileSync: "treeLike d \<Longrightarrow> treeLike (snd (writeFileSync p c d))"
proof (cases "validPath d p \<and> p \<noteq> [] \<and> isDir (nodes d (butlast p)) \<and> \<not> isDir (nodes d p)")
  case False
  assume "treeLike d"
  then show ?thesis using False by (auto simp: writeFileSync_def)
next
  case True
  assume t: "treeLike d"
  have b: "nodes d (butlast p) = Some Dir" using True by (cases "nodes d (butlast p)" rule: isDir.cases) simp_all
  have "snd (writeFileSync p c d) = written p c d" using True by (simp add: writeFileSync_def written_def)
  then show ?thesis using treeLike_written[OF t b] True by simp
qed

lemma treeLike_rmSync: "treeLike d \<Longrightarrow> treeLike (snd (rmSync p env d))"
  by (cases env) (simp_all add: rmSync_def treeLike_removeTree treeLike_removePart)

subsection \<open>Encrypted files\<close>

lemma keyPath_written [simp]: "keyPath (written p c d) = keyPath d"
  by (simp add: keyPath_def)

lemma keyPath_ensured [simp]: "keyPath (ensured p d) = keyPath d"
  by (simp add: keyPath_def)

lemma keyPath_not_prefix [simp]: "\<not> prefix (keyPath d) (baseDataDir d)"
  by (auto simp: keyPath_def baseDataDir_def prefix_def)

lemma keyPath_not_file [simp]: "baseDataDir d @ [f] \<noteq> keyPath d" "keyPath d \<noteq> baseDataDir d @ [f]"
  by (simp_all add: keyPath_def baseDataDir_def)

lemma keyPath_not_base [simp]: "baseDataDir d \<noteq> keyPath d" "keyPath d \<noteq> baseDataDir d"
  by (simp_all add: keyPath_def baseDataDir_def)

lemma readJSON_Some: "readJSON (Some f) fb = (case f of Unparsable \<Rightarrow> fb | Parses v \<Rightarrow> v)"
  by (cases f) simp_all

lemma butlast_keyPath [simp]: "butlast (keyPath d) = userData d"
  by (simp add: keyPath_def)

lemma prefix_userData_base [simp]: "prefix (userData d) (baseDataDir d)"
  by (simp add: baseDataDir_def)

lemma keyReady_cases:
  "keyReady d \<Longrightarrow> nodes d (keyPath d) = None \<or> (\<exists>k. nodes d (keyPath d) = Some (File (KeyText (ValidKey k))))"
  by (auto simp: keyReady_def split: option.splits node.splits content.splits keyfile.splits)

text \<open>\<^verbatim>\<open>getAppKey\<close> once the user-data directory exists.\<close>

lemma getAppKey_fs_ok:
  assumes k: "keyReady d" and u: "nodes d (userData d) = Some Dir"
  shows "\<exists>key d1. getAppKey_fs fk d = (Inr (ValidKey key), d1)
           \<and> (d1 = d \<or> d1 = written (keyPath d) (KeyText (ValidKey fk)) d)
           \<and> nodes d1 (keyPath d) = Some (File (KeyText (ValidKey key)))
           \<and> (nodes d (keyPath d) = None \<or> nodes d (keyPath d) = Some (File (KeyText (ValidKey key))))"
proof -
  have vk: "validPath d (keyPath d)" using k by (simp add: keyReady_def)
  from keyReady_cases[OF k] show ?thesis
  proof
    assume n: "nodes d (keyPath d) = None"
    have "writeFileSync (keyPath d) (KeyText (ValidKey fk)) d
          = (Inr (), written (keyPath d) (KeyText (ValidKey fk)) d)"
      using vk u n by (intro writeFileSync_eq) (simp_all add: keyPath_def)
    then show ?thesis using n vk by (simp add: getAppKey_fs_def existsSync_def)
  next
    assume "\<exists>key. nodes d (keyPath d) = Some (File (KeyText (ValidKey key)))"
    then obtain key where "nodes d (keyPath d) = Some (File (KeyText (ValidKey key)))" by blast
    then show ?thesis using vk by (simp add: getAppKey_fs_def existsSync_def readFileSync_def)
  qed
qed

text \<open>Writing the key file leaves the data directory as usable as it was.\<close>

lemma treeLike_key:
  assumes "treeLike d" "nodes d (userData d) = Some Dir" "keyReady d"
  shows "treeLike (written (keyPath d) c d)"
proof -
  have "\<not> isDir (nodes d (keyPath d))" using keyReady_cases[OF assms(3)] by auto
  then show ?thesis using assms(1,2) by (intro treeLike_written) (simp_all add: keyPath_def)
qed

lemma canHold_key: "canHold (baseDataDir d) fs d \<Longrightarrow> canHold (baseDataDir d) fs (written (keyPath d) c d)"
proof -
  assume c: "canHold (baseDataDir d) fs d"
  have "\<And>q. prefix q (baseDataDir d) \<Longrightarrow> q \<noteq> keyPath d"
    using keyPath_not_prefix by blast
  then show ?thesis using c by (auto simp: canHold_def dirReady_def list_all_iff)
qed

lemma keyReady_key: "keyReady d \<Longrightarrow> keyReady (written (keyPath d) (KeyText (ValidKey k)) d)"
  by (simp add: keyReady_def)

lemma keyReady_ensured: "keyReady d \<Longrightarrow> keyReady (ensured (baseDataDir d) d)"
  by (simp add: keyReady_def)

lemma keyReady_file: "keyReady d \<Longrightarrow> keyReady (written (baseDataDir d @ [f]) c d)"
  by (simp add: keyReady_def)

lemma readEncrypted_fs_ok:
  assumes t: "treeLike d" and c: "canHold (baseDataDir d) fs d" and k: "keyReady d"
  shows "\<exists>v d1. readEncrypted_fs (baseDataDir d @ [f]) fb fk d = (Inr v, d1)
           \<and> (v = fb \<or> (\<exists>key. nodes d (baseDataDir d @ [f]) = Some (File (EnvelopeText (Sealed key (Parses v))))
                           \<and> (nodes d (keyPath d) = None
                               \<or> nodes d (keyPath d) = Some (File (KeyText (ValidKey key))))))
           \<and> treeLike d1 \<and> canHold (baseDataDir d1) fs d1 \<and> keyReady d1
           \<and> userData d1 = userData d \<and> activeId d1 = activeId d"
proof (cases "readFileSync (baseDataDir d @ [f]) d")
  case None
  then show ?thesis using t c k by (simp add: readEncrypted_fs_def)
next
  case (Some raw)
  then have n: "nodes d (baseDataDir d @ [f]) = Some (File raw)"
    by (auto simp: readFileSync_def split: if_splits option.splits node.splits)
  have b: "nodes d (baseDataDir d) = Some Dir" using treeLike_parent[OF t, of "baseDataDir d" f] n by simp
  then have u: "nodes d (userData d) = Some Dir"
    using treeLike_parent[OF t, of "userData d" "''browser-data''"] by (simp add: baseDataDir_def)
  obtain key d1 where g: "getAppKey_fs fk d = (Inr (ValidKey key), d1)"
      "d1 = d \<or> d1 = written (keyPath d) (KeyText (ValidKey fk)) d"
      "nodes d (keyPath d) = None \<or> nodes d (keyPath d) = Some (File (KeyText (ValidKey key)))"
    using getAppKey_fs_ok[OF k u, of fk] by blast
  have p: "treeLike d1 \<and> canHold (baseDataDir d1) fs d1 \<and> keyReady d1
           \<and> userData d1 = userData d \<and> activeId d1 = activeId d"
    using g(2) t c k treeLike_key[OF t u k] canHold_key[OF c] keyReady_key[OF k] by auto
  show ?thesis
  proof (cases "\<exists>body. raw = EnvelopeText (Sealed key (Parses body))")
    case True
    then obtain body where "raw = EnvelopeText (Sealed key (Parses body))" by blast
    then show ?thesis using Some g(1,3) p n by (simp add: readEncrypted_fs_def)
  next
    case False
    then have "readEncrypted_fs (baseDataDir d @ [f]) fb fk d = (Inr fb, d1)"
      using Some g(1)
      by (auto simp: readEncrypted_fs_def readJSON_Some split: content.splits encfile.splits jsonfile.splits)
    then show ?thesis using p by simp
  qed
qed

lemma writeEncrypted_fs_ok:
  assumes t: "treeLike d" and c: "canHold (baseDataDir d) fs d" and k: "keyReady d"
    and m: "f \<in> set fs"
  shows "\<exists>d3. writeEncrypted_fs (baseDataDir d @ [f]) v fk d = (Inr (), d3)
           \<and> treeLike d3 \<and> canHold (baseDataDir d3) fs d3 \<and> keyReady d3
           \<and> userData d3 = userData d \<and> activeId d3 = activeId d"
proof -
  let ?B = "baseDataDir d"
  let ?d1 = "ensured ?B d"
  have r: "dirReady ?B d" using c by (simp add: canHold_def)
  have vf: "validPath d (?B @ [f])" using c m by (auto simp: canHold_def list_all_iff)
  have t1: "treeLike ?d1" by (rule treeLike_ensured[OF t r])
  have c1: "canHold (baseDataDir ?d1) fs ?d1" using canHold_ensured[OF c] by simp
  have k1: "keyReady ?d1" by (rule keyReady_ensured[OF k])
  have u1: "nodes ?d1 (userData ?d1) = Some Dir" by simp
  obtain key d2 where g: "getAppKey_fs fk ?d1 = (Inr (ValidKey key), d2)"
      "d2 = ?d1 \<or> d2 = written (keyPath ?d1) (KeyText (ValidKey fk)) ?d1"
    using getAppKey_fs_ok[OF k1 u1, of fk] by auto
  have p2: "treeLike d2 \<and> canHold ?B fs d2 \<and> keyReady d2 \<and> userData d2 = userData d
            \<and> activeId d2 = activeId d \<and> baseDataDir d2 = ?B \<and> fsAccepts d2 = fsAccepts d"
    using g(2) t1 c1 k1 treeLike_key[OF t1 u1 k1] canHold_key[OF c1] keyReady_key[OF k1] by auto
  have b2: "nodes d2 ?B = Some Dir" using g(2) by auto
  have nd2: "\<not> isDir (nodes d2 (?B @ [f]))" using p2 m by (auto simp: canHold_def list_all_iff)
  let ?d3 = "written (?B @ [f]) (EnvelopeText (Sealed key (Parses v))) d2"
  have w: "writeFileSync (?B @ [f]) (EnvelopeText (Sealed key (Parses v))) d2 = (Inr (), ?d3)"
    using vf p2 b2 nd2 by (intro writeFileSync_eq) (simp_all add: validPath_def)
  have t3: "treeLike ?d3" using p2 b2 nd2 by (intro treeLike_written) simp_all
  have c3: "canHold ?B fs ?d3" using p2 by (auto simp: canHold_def dirReady_def list_all_iff)
  have k3: "keyReady ?d3" using keyReady_file[of d2 f] p2 by simp
  have "writeEncrypted_fs (?B @ [f]) v fk d = (Inr (), ?d3)"
    using ensureDir_eq[OF t r] g(1) w by (simp add: writeEncrypted_fs_def)
  then show ?thesis using t3 c3 k3 p2 by (intro exI[of _ ?d3]) simp
qed

lemma credentialShape_notNull: "list_all credentialShape cs \<Longrightarrow> list_all notNull cs"
  by (simp add: list_all_iff credentialShape_def)

lemma find_in_set: "List.find p xs = Some x \<Longrightarrow> x \<in> set xs \<and> p x"
  by (induction xs) (auto split: if_splits)

lemma fieldEq_hasString: "fieldEq k v x \<Longrightarrow> hasString k x"
  by (simp add: fieldEq_def hasString_def)

lemma hasString_getProp: "hasString k x \<Longrightarrow> \<exists>s. getProp x k = Inr (Some (JStr s))"
  by (auto simp: hasString_def split: sum.splits option.splits json.splits)

lemma auth_fs_safe:
  assumes t: "treeLike d" and c: "canHold (baseDataDir d) baseFiles d" and k: "keyReady d"
    and sh: "\<forall>key v. nodes d (credentialsPath d) = Some (File (EnvelopeText (Sealed key (Parses v))))
            \<and> (nodes d (keyPath d) = None \<or> nodes d (keyPath d) = Some (File (KeyText (ValidKey key))))
          \<longrightarrow> isArrayOf credentialShape v"
  shows "\<exists>v d'. getAuthState_fs fk d = (Inr v, d')"
    and "\<exists>v d'. logoutUser_fs fk d = (Inr v, d')"
    and "\<exists>v d'. registerUser_fs kdf email password r d = (Inr v, d')"
    and "\<exists>v d'. loginUser_fs kdf email password r d = (Inr v, d')"
proof -
  have A: "''auth.enc'' \<in> set baseFiles" "''credentials.enc'' \<in> set baseFiles"
    by (simp_all add: baseFiles_def)
  show "\<exists>v d'. getAuthState_fs fk d = (Inr v, d')"
    using readEncrypted_fs_ok[OF t c k, of "''auth.enc''" loggedOut fk]
    by (auto simp: getAuthState_fs_def authStatePath_def)
  show "\<exists>v d'. logoutUser_fs fk d = (Inr v, d')"
    using writeEncrypted_fs_ok[OF t c k A(1), of loggedOut fk]
    by (auto simp: logoutUser_fs_def saveAuthState_fs_def authStatePath_def)
  obtain creds d1 where rd: "readEncrypted_fs (credentialsPath d) (JArr []) (rand_key r) d = (Inr creds, d1)"
      "creds = JArr [] \<or> (\<exists>key. nodes d (credentialsPath d) = Some (File (EnvelopeText (Sealed key (Parses creds))))
                           \<and> (nodes d (keyPath d) = None
                               \<or> nodes d (keyPath d) = Some (File (KeyText (ValidKey key)))))"
      "treeLike d1" "canHold (baseDataDir d1) baseFiles d1" "keyReady d1"
      "userData d1 = userData d" "activeId d1 = activeId d"
    using readEncrypted_fs_ok[OF t c k, of "''credentials.enc''" "JArr []" "rand_key r"]
    unfolding credentialsPath_def by blast
  have "isArrayOf credentialShape creds" using rd(2) sh by auto
  then obtain cs where cs: "creds = JArr cs" "list_all credentialShape cs" by (auto simp: isArrayOf_iff)
  have nn: "list_all notNull cs" by (rule credentialShape_notNull[OF cs(2)])
  have B1: "baseDataDir d1 = baseDataDir d" using rd(6) by (simp add: baseDataDir_def)
  have S: "\<And>d2 st. treeLike d2 \<Longrightarrow> canHold (baseDataDir d2) baseFiles d2 \<Longrightarrow> keyReady d2
              \<Longrightarrow> \<exists>d'. saveAuthState_fs st (rand_key r) d2 = (Inr (), d')"
  proof -
    fix d2 st assume "treeLike d2" "canHold (baseDataDir d2) baseFiles d2" "keyReady d2"
    then show "\<exists>d'. saveAuthState_fs st (rand_key r) d2 = (Inr (), d')"
      using writeEncrypted_fs_ok[of d2 baseFiles "''auth.enc''" st "rand_key r"] A(1)
      by (auto simp: saveAuthState_fs_def authStatePath_def)
  qed
  show "\<exists>v d'. registerUser_fs kdf email password r d = (Inr v, d')"
  proof (cases "list_ex (fieldEq ''email'' email) cs")
    case True
    then show ?thesis using rd(1) cs(1) nn by (simp add: registerUser_fs_def some_js_notNull)
  next
    case False
    let ?cs' = "cs @ [mkCredentials email (kdf password (rand_salt r)) (rand_salt r) (clock r)]"
    obtain d2 where w: "writeEncrypted_fs (credentialsPath d1) (JArr ?cs') (rand_key r) d1 = (Inr (), d2)"
        "treeLike d2" "canHold (baseDataDir d2) baseFiles d2" "keyReady d2"
      using writeEncrypted_fs_ok[OF rd(3,4,5) A(2), of "JArr ?cs'" "rand_key r"]
      unfolding credentialsPath_def by auto
    obtain d3 where "saveAuthState_fs
        (mkAuthState True (JStr email) (JStr (rand_token r)) (JStr (activeId d2))) (rand_key r) d2
        = (Inr (), d3)" using S[OF w(2,3,4)] by blast
    then show ?thesis using rd(1) cs(1) nn False w(1)
      by (simp add: registerUser_fs_def some_js_notNull Let_def)
  qed
  show "\<exists>v d'. loginUser_fs kdf email password r d = (Inr v, d')"
  proof (cases "List.find (fieldEq ''email'' email) cs")
    case None
    then show ?thesis using rd(1) cs(1) nn by (simp add: loginUser_fs_def find_js_notNull)
  next
    case (Some user)
    then have "user \<in> set cs" "fieldEq ''email'' email user" using find_in_set by fastforce+
    then have "hasString ''salt'' user"
      using cs(2) fieldEq_hasString by (auto simp: list_all_iff credentialShape_def)
    then obtain s where s: "getProp user ''salt'' = Inr (Some (JStr s))" using hasString_getProp by blast
    obtain d3 where "saveAuthState_fs
        (mkAuthState True (JStr email) (JStr (rand_token r)) (JStr (activeId d1))) (rand_key r) d1
        = (Inr (), d3)" using S[OF rd(3,4,5)] by blast
    then show ?thesis using rd(1) cs(1) nn Some s
      by (simp add: loginUser_fs_def find_js_notNull)
  qed
qed


subsection \<open>Every operation, and the invariant of the profile list\<close>

lemma isObject_mkProfile: "isObject (mkProfile pid name avatar now d)"
  by (simp add: mkProfile_def Profile_json_def)

lemma fieldEq_id_mkProfile: "fieldEq ''id'' v (mkProfile pid name avatar now d) \<longleftrightarrow> pid = v"
  by (simp add: mkProfile_def Profile_json_def fieldEq_def)

lemma isObject_notNull: "isObject x \<Longrightarrow> notNull x"
  by (cases x) (simp_all add: notNull_def)

lemma profiles_inv_iff:
  "profiles_inv d \<longleftrightarrow> treeLike d \<and> canHold (baseDataDir d) [''profiles.json''] d
     \<and> (\<exists>ps. profilesDoc d = JArr ps \<and> list_all isObject ps
              \<and> (ps = [] \<or> length (filter (fieldEq ''id'' ''default'') ps) = 1))"
  by (auto simp: profiles_inv_def split: json.splits)

lemma profiles_inv_shape: "profiles_inv d \<Longrightarrow> profilesShape (profilesDoc d)"
  by (auto simp: profiles_inv_iff profilesShape_def list_all_iff isObject_notNull)

lemma profiles_inv_activeId [simp]: "profiles_inv (d\<lparr> activeId := x \<rparr>) = profiles_inv d"
  by (simp add: profiles_inv_iff)

lemma getProfiles_fs_inv:
  assumes "profiles_inv d"
  shows "\<exists>ps d1. getProfiles_fs now d = (Inr (JArr ps), d1)
           \<and> list_all isObject ps \<and> length (filter (fieldEq ''id'' ''default'') ps) = 1
           \<and> profiles_inv d1 \<and> profilesDoc d1 = JArr ps
           \<and> treeLike d1 \<and> canHold (baseDataDir d1) [''profiles.json''] d1
           \<and> userData d1 = userData d \<and> activeId d1 = activeId d
           \<and> (\<forall>now'. getProfiles_fs now' d1 = (Inr (JArr ps), d1))"
proof -
  have t: "treeLike d" and c: "canHold (baseDataDir d) [''profiles.json''] d"
    using assms by (simp_all add: profiles_inv_iff)
  obtain ps d1 where g: "getProfiles_fs now d = (Inr (JArr ps), d1)" "ps \<noteq> []"
      "profilesDoc d = JArr ps \<or> ps = [mkProfile ''default'' ''Default'' ''person'' now True]"
      "treeLike d1" "canHold (baseDataDir d1) [''profiles.json''] d1" "profilesDoc d1 = JArr ps"
      "userData d1 = userData d" "activeId d1 = activeId d"
      "\<forall>now'. getProfiles_fs now' d1 = (Inr (JArr ps), d1)"
    using getProfiles_fs_ok[OF t c _ profiles_inv_shape[OF assms], of now] by auto
  have good: "list_all isObject ps \<and> length (filter (fieldEq ''id'' ''default'') ps) = 1"
    using g(2,3) assms by (auto simp: profiles_inv_iff isObject_mkProfile fieldEq_id_mkProfile)
  then have "profiles_inv d1" using g(4,5,6) by (simp add: profiles_inv_iff)
  then show ?thesis using g good by blast
qed

lemma filter_default_kept:
  "pid \<noteq> ''default'' \<Longrightarrow>
   filter (fieldEq ''id'' ''default'') (filter (\<lambda>x. \<not> fieldEq ''id'' pid x) ps)
   = filter (fieldEq ''id'' ''default'') ps"
  by (induction ps) (auto simp: fieldEq_def)

lemma profile_step_inv:
  assumes "profiles_inv d"
  shows "profiles_inv (snd (run_profiles opn d))"
proof -
  have t: "treeLike d" and c: "canHold (baseDataDir d) [''profiles.json''] d"
    using assms by (simp_all add: profiles_inv_iff)
  show ?thesis
  proof (cases opn)
    case (GetProfiles now)
    then show ?thesis using getProfiles_fs_inv[OF assms, of now] by (auto simp: returning_fs_def)
  next
    case (CreateProfile name avatar now0 stamp rnd now)
    obtain ps d1 where g: "getProfiles_fs now0 d = (Inr (JArr ps), d1)"
        "list_all isObject ps" "length (filter (fieldEq ''id'' ''default'') ps) = 1"
        "treeLike d1" "canHold (baseDataDir d1) [''profiles.json''] d1"
      using getProfiles_fs_inv[OF assms, of now0] by blast
    let ?p = "mkProfile (''profile-'' @ stamp @ ''-'' @ rnd) name avatar now False"
    let ?d3 = "written (baseDataDir d1 @ [''profiles.json'']) (JsonText (Parses (JArr (ps @ [?p]))))
                 (ensured (baseDataDir d1) d1)"
    have w: "writeGlobalJSON ''profiles'' (JArr (ps @ [?p])) d1 = (Inr (), ?d3)"
      using writeGlobalJSON_eq[OF g(4,5), of "''profiles''"] by simp
    have v: "validPath d1 (baseDataDir d1 @ [''profiles.json''])" using g(5) by (simp add: canHold_def)
    have "treeLike ?d3" by (rule treeLike_put[OF g(4,5)]) simp
    moreover have "canHold (baseDataDir ?d3) [''profiles.json''] ?d3" using canHold_put[OF g(5)] by simp
    moreover have "profilesDoc ?d3 = JArr (ps @ [?p])" using profilesDoc_put[OF v] by simp
    ultimately have "profiles_inv ?d3" using g(2,3)
      by (simp add: profiles_inv_iff isObject_mkProfile fieldEq_id_mkProfile)
    moreover have "snd (run_profiles opn d) = ?d3"
      using CreateProfile g(1) w by (simp add: createProfile_fs_def Let_def)
    ultimately show ?thesis by simp
  next
    case (DeleteProfile pid now0 now1 env)
    show ?thesis
    proof (cases "pid = ''default''")
      case True
      then show ?thesis using DeleteProfile getProfiles_fs_inv[OF assms, of now0]
        by (auto simp: deleteProfile_fs_def returning_fs_def)
    next
      case False
      obtain ps d5 where k: "list_all notNull ps" "ps \<noteq> []"
          "profilesDoc d = JArr ps \<or> ps = [mkProfile ''default'' ''Default'' ''person'' now0 True]"
          "treeLike d5" "canHold (baseDataDir d5) [''profiles.json''] d5"
          "profilesDoc d5 = JArr (filter (\<lambda>x. \<not> fieldEq ''id'' pid x) ps) \<or> profilesDoc d5 = JArr []"
          "deleteProfile_fs pid now0 now1 env d = (Inl FsError, d5)
           \<or> deleteProfile_fs pid now0 now1 env d
               = getProfiles_fs now1 (if activeId d5 = pid then d5\<lparr> activeId := ''default'' \<rparr> else d5)"
        using deleteProfile_fs_cases[OF t c _ profiles_inv_shape[OF assms] False, of now0 now1 env]
        by auto
      have good: "list_all isObject ps \<and> length (filter (fieldEq ''id'' ''default'') ps) = 1"
        using k(2,3) assms by (auto simp: profiles_inv_iff isObject_mkProfile fieldEq_id_mkProfile)
      have i5: "profiles_inv d5"
        using k(4,5,6) good filter_default_kept[OF False, of ps]
        by (auto simp: profiles_inv_iff list_all_iff)
      let ?d6 = "if activeId d5 = pid then d5\<lparr> activeId := ''default'' \<rparr> else d5"
      have i6: "profiles_inv ?d6" using i5 by simp
      from k(7) show ?thesis
      proof
        assume "deleteProfile_fs pid now0 now1 env d = (Inl FsError, d5)"
        then show ?thesis using DeleteProfile i5 by (simp add: returning_fs_def)
      next
        assume "deleteProfile_fs pid now0 now1 env d = getProfiles_fs now1 ?d6"
        then show ?thesis using DeleteProfile getProfiles_fs_inv[OF i6, of now1]
          by (auto simp: returning_fs_def)
      qed
    qed
  next
    case (SwitchProfile pid now)
    obtain ps d1 where g: "getProfiles_fs now d = (Inr (JArr ps), d1)" "list_all isObject ps"
        "profiles_inv d1"
      using getProfiles_fs_inv[OF assms, of now] by blast
    have "list_all notNull ps" using g(2) by (simp add: list_all_iff isObject_notNull)
    then show ?thesis using SwitchProfile g(1,3)
      by (auto simp: switchProfile_fs_def find_js_notNull returning_fs_def split: option.splits)
  next
    case (GetActiveProfile now)
    obtain ps d1 where g: "getProfiles_fs now d = (Inr (JArr ps), d1)" "list_all isObject ps"
        "profiles_inv d1"
      using getProfiles_fs_inv[OF assms, of now] by blast
    have "list_all notNull ps" using g(2) by (simp add: list_all_iff isObject_notNull)
    then show ?thesis using GetActiveProfile g(1,3)
      by (auto simp: getActiveProfile_fs_def find_js_notNull split: option.splits)
  qed
qed

lemma fresh_root_inv: "fresh_root d \<Longrightarrow> profiles_inv d"
proof -
  assume f: "fresh_root d"
  then have t: "treeLike d" and c: "canHold (baseDataDir d) [''profiles.json''] d"
    and n: "nodes d (baseDataDir d) = None"
    by (simp_all add: fresh_root_def)
  have np: "nodes d (baseDataDir d @ [''profiles.json'']) = None"
    using treeLike_parent[OF t, of "baseDataDir d" "''profiles.json''"] n
    by (cases "nodes d (baseDataDir d @ [''profiles.json''])") simp_all
  note c
  moreover have "profilesDoc d = JArr []"
    using np by (simp add: profilesDoc_def readJSON_fs_def readFileSync_def)
  ultimately show ?thesis using t by (simp add: profiles_inv_iff)
qed

lemma reachable_inv: "reachable d \<Longrightarrow> profiles_inv d"
  by (induction rule: reachable.induct) (simp_all add: fresh_root_inv profile_step_inv)

subsection \<open>The disks of the concrete instances\<close>

lemma treeLike_disk0: "treeLike disk0"
  by (auto simp: treeLike_def disk0_def dest: append_prefixD)

lemma fresh_root_disk0: "fresh_root disk0"
  using treeLike_disk0
  by (simp add: fresh_root_def canHold_def dirReady_def disk0_def validPath_def home_def baseDataDir_def)

lemma withFile_eq:
  assumes "treeLike d" "canHold dir [f] d"
  shows "withFile (dir @ [f]) c d = written (dir @ [f]) c (ensured dir d)"
proof -
  have r: "dirReady dir d" and nd: "\<not> isDir (nodes d (dir @ [f]))" and vf: "validPath d (dir @ [f])"
    using assms(2) by (auto simp: canHold_def)
  have v: "validPath d dir" using r by (simp add: dirReady_def)
  have nf: "list_all (\<lambda>q. \<not> isFile (nodes d q)) (prefixes dir)"
    using r by (simp add: dirReady_def list_all_iff)
  have "(\<lambda>q. if prefix q dir \<and> nodes d q = None then Some Dir else nodes d q)
        = (\<lambda>q. if prefix q dir then Some Dir else nodes d q)"
  proof (intro ext)
    fix q show "(if prefix q dir \<and> nodes d q = None then Some Dir else nodes d q)
                = (if prefix q dir then Some Dir else nodes d q)"
      using dirReady_prefix[OF r, of q] by auto
  qed
  then have m: "withDirs dir d = ensured dir d"
    using v nf by (simp add: withDirs_def mkdirSync_def ensured_def)
  have "writeFileSync (dir @ [f]) c (ensured dir d) = (Inr (), written (dir @ [f]) c (ensured dir d))"
    using nd vf by (intro writeFileSync_eq) simp_all
  then show ?thesis using m by (simp add: withFile_def)
qed

lemma canHold_disk0: "canHold (base0 @ [''profiles'', ''default'']) profileFiles disk0"
  by (simp add: canHold_def dirReady_def disk0_def validPath_def home_def base0_def profileFiles_def)

lemma disk_corrupt_eq:
  "disk_corrupt = written (base0 @ [''profiles'', ''default'', ''bookmarks.json'']) (JsonText Unparsable)
                    (ensured (base0 @ [''profiles'', ''default'']) disk0)"
proof -
  have "canHold (base0 @ [''profiles'', ''default'']) [''bookmarks.json''] disk0"
    using canHold_disk0 by (simp add: canHold_def profileFiles_def)
  from withFile_eq[OF treeLike_disk0 this] show ?thesis by (simp add: disk_corrupt_def)
qed

lemma treeLike_disk_corrupt: "treeLike disk_corrupt"
  unfolding disk_corrupt_eq
  using treeLike_put[OF treeLike_disk0 canHold_disk0, of "''bookmarks.json''"]
  by (simp add: profileFiles_def)

lemma usable_disk_corrupt: "usable disk_corrupt"
  using treeLike_disk_corrupt
  by (simp add: usable_def canHold_def dirReady_def keyReady_def disk_corrupt_eq disk0_def validPath_def
        home_def base0_def baseDataDir_def activeDir_def joinPath_def keyPath_def baseFiles_def
        profileFiles_def)

lemma shaped_disk_corrupt: "shaped disk_corrupt"
  by (simp add: shaped_def profilesDoc_def readJSON_fs_def readFileSync_def disk_corrupt_eq disk0_def
        validPath_def home_def base0_def baseDataDir_def activeDir_def joinPath_def profilesShape_def
        credentialsPath_def)

subsection \<open>The two views\<close>

text \<open>Where the directory in question can be used, reading and writing a document on the
  file system is what the document view says it is: a read returns what the document
  view reads, and after a write every document reads as the document view has it.\<close>

lemma readProfileJSON_view:
  assumes "treeLike d" "dirReady (activeDir d) d"
  shows "readProfileJSON name fb d = (Inr (readProfile name fb (docView d)), ensured (activeDir d) d)"
  by (simp add: readProfileJSON_eq[OF assms] readProfile_def docView_def readJSON_fs_def activeDir_def)

lemma writeProfileJSON_view:
  assumes "treeLike d" "canHold (activeDir d) fs d" "name @ ''.json'' \<in> set fs"
  shows "\<exists>d'. writeProfileJSON name v d = (Inr (), d')
           \<and> (\<forall>name' fb. readProfile name' fb (docView d')
                           = readProfile name' fb (writeProfile name v (docView d)))"
proof -
  have vf: "validPath d (activeDir d @ [name @ ''.json''])"
    using assms(2,3) by (auto simp: canHold_def list_all_iff)
  let ?d' = "written (activeDir d @ [name @ ''.json'']) (JsonText (Parses v)) (ensured (activeDir d) d)"
  have "readProfile name' fb (docView ?d') = readProfile name' fb (writeProfile name v (docView d))"
    for name' fb
    using vf
    by (simp add: readProfile_def writeProfile_def docView_def readFileSync_def
          activeDir_def[symmetric] validPath_def)
  then show ?thesis by (simp add: writeProfileJSON_eq[OF assms])
qed

lemma storage_readJSON_view:
  assumes "treeLike d" "dirReady (baseDataDir d) d"
  shows "storage_readJSON_fs name fb d
         = (Inr (storage_readJSON name fb (docView d)), ensured (baseDataDir d) d)"
  by (simp add: storage_readJSON_fs_eq[OF assms] storage_readJSON_def docView_def readJSON_fs_def
        readFileSync_def split: option.splits node.splits content.splits jsonfile.splits)

lemma storage_writeJSON_view:
  assumes "treeLike d" "canHold (baseDataDir d) fs d" "name @ ''.json'' \<in> set fs"
  shows "\<exists>d'. storage_writeJSON_fs name v d = (Inr (), d')
           \<and> (\<forall>name' fb. storage_readJSON name' fb (docView d')
                           = storage_readJSON name' fb (storage_writeJSON name v (docView d)))"
proof -
  have vf: "validPath d (baseDataDir d @ [name @ ''.json''])"
    using assms(2,3) by (auto simp: canHold_def list_all_iff)
  let ?d' = "written (baseDataDir d @ [name @ ''.json'']) (JsonText (Parses v)) (ensured (baseDataDir d) d)"
  have "storage_readJSON name' fb (docView ?d') = storage_readJSON name' fb (storage_writeJSON name v (docView d))"
    for name' fb
    using vf
    by (simp add: storage_readJSON_def storage_writeJSON_def docView_def readFileSync_def validPath_def
             split: option.splits node.splits content.splits jsonfile.splits)
  then show ?thesis by (simp add: storage_writeJSON_fs_eq[OF assms])
qed

section \<open>Properties of the encryption layer\<close>

text \<open>
  Claim C1, as amended. For every well-formed string \<open>x\<close> (no unpaired surrogate), the
  empty string and strings that contain the colon included, \<^verbatim>\<open>decryptData(encryptData(x))\<close>
  returns \<open>x\<close>, whenever the key file is missing or holds a 32-byte key. AES-256-GCM is a
  parameter of which correctness is assumed; \<open>random32\<close> and \<open>iv\<close> are the random bytes
  drawn.
\<close>

theorem encrypt_decrypt_roundtrip:
  assumes "cipher_correct c" and "length random32 = 32" and "length iv = 16"
    and "keyFile_ok kf" and "wellFormed x"
  shows "roundTrip c random32 random32' iv x kf = Inr x"
  using envelope_roundtrip[OF assms(1-4)] utf8_roundtrip[OF assms(5)] by simp

theorem encrypt_decrypt_roundtrip_witness:
  "cipher_correct demo_cipher \<and> length (replicate 32 (42 :: 8 word)) = 32
   \<and> length (replicate 16 (7 :: 8 word)) = 16 \<and> keyFile_ok None
   \<and> wellFormed [0x61, 0x3A, 0x62] \<and> wellFormed []
   \<and> roundTrip demo_cipher (replicate 32 42) [] (replicate 16 7) [0x61, 0x3A, 0x62] None
       = Inr [0x61, 0x3A, 0x62]
   \<and> roundTrip demo_cipher (replicate 32 42) [] (replicate 16 7) [] None = Inr []"
proof -
  have k: "length (replicate 32 (42 :: 8 word)) = 32" and i: "length (replicate 16 (7 :: 8 word)) = 16"
    by simp_all
  have f: "keyFile_ok None" by (simp add: keyFile_ok_def)
  have w: "wellFormed [0x61, 0x3A, 0x62]" "wellFormed []" by (simp_all add: isHigh_def isLow_def)
  from encrypt_decrypt_roundtrip[OF cipher_correct_demo k i f w(1), of "[]"]
       encrypt_decrypt_roundtrip[OF cipher_correct_demo k i f w(2), of "[]"]
       cipher_correct_demo k i f w
  show ?thesis by simp
qed

text \<open>The claim as it stands fails on a string with an unpaired surrogate: the UTF-8
  encoder writes U+FFFD for it, and that is what comes back.\<close>

theorem roundtrip_lone_surrogate_counterexample:
  "roundTrip demo_cipher (replicate 32 42) [] (replicate 16 7) [0xD800] None = Inr [0xFFFD]"
proof -
  have "utf8_decode (utf8_encode [0xD800]) = [0xFFFD]"
    by (simp add: isHigh_def isLow_def replacement_def Let_def isCont_def secondLo_def secondHi_def)
  with envelope_roundtrip[OF cipher_correct_demo, of "replicate 32 42" "replicate 16 7" None "[]" "[0xD800]"]
  show ?thesis by (simp add: keyFile_ok_def)
qed

section \<open>Properties of the stores\<close>

text \<open>
  Claim C7. For every url, every pair of titles and every starting bookmark list, calling
  \<^verbatim>\<open>addBookmark\<close> twice with the same url succeeds both times; the second call returns
  the list the first call returned and leaves the store as it is. Existing entries keep
  their places and a new entry goes to the end (insertion order). The number of entries
  for the url afterwards is the number before, or one if there was none; so a list
  without duplicate urls, which is what the store builds from an empty document, stays
  without duplicates and holds exactly one entry for the url.
\<close>

theorem addBookmark_twice:
  assumes "getBookmarks s = JArr (map Bookmark_json bs)"
  shows "\<exists>bs' s1.
           addBookmark u t1 n1 s = Inr (JArr (map Bookmark_json bs'), s1)
         \<and> getBookmarks s1 = JArr (map Bookmark_json bs')
         \<and> addBookmark u t2 n2 s1 = Inr (JArr (map Bookmark_json bs'), s1)
         \<and> bs' = (if u \<in> set (map bm_url bs) then bs
                   else bs @ [\<lparr> bm_url = u, bm_title = t1, addedAt = n1 \<rparr>])
         \<and> length (filter (\<lambda>b. bm_url b = u) bs') = max 1 (length (filter (\<lambda>b. bm_url b = u) bs))
         \<and> (bookmarks_inv bs \<longrightarrow>
               bookmarks_inv bs' \<and> length (filter (\<lambda>b. bm_url b = u) bs') = 1)"
proof -
  define bs' where
    "bs' = (if u \<in> set (map bm_url bs) then bs else bs @ [\<lparr> bm_url = u, bm_title = t1, addedAt = n1 \<rparr>])"
  define s1 where
    "s1 = (if u \<in> set (map bm_url bs) then s
           else writeProfile ''bookmarks'' (JArr (map Bookmark_json bs')) s)"
  have a1: "addBookmark u t1 n1 s = Inr (JArr (map Bookmark_json bs'), s1)"
    using addBookmark_typed[OF assms, of u t1 n1] by (simp add: bs'_def s1_def)
  have g1: "getBookmarks s1 = JArr (map Bookmark_json bs')"
    using assms by (auto simp: s1_def getBookmarks_writeProfile bs'_def)
  have mem: "u \<in> set (map bm_url bs')" by (auto simp: bs'_def)
  have a2: "addBookmark u t2 n2 s1 = Inr (JArr (map Bookmark_json bs'), s1)"
    using addBookmark_typed[OF g1, of u t2 n2] mem by simp
  have cnt: "length (filter (\<lambda>b. bm_url b = u) bs') = max 1 (length (filter (\<lambda>b. bm_url b = u) bs))"
    using filter_url_absent[of u bs] filter_url_present[of u bs] by (auto simp: bs'_def)
  have d2: "bookmarks_inv bs \<Longrightarrow> bookmarks_inv bs'"
    by (auto simp: bs'_def bookmarks_inv_def)
  have d1: "bookmarks_inv bs \<Longrightarrow> length (filter (\<lambda>b. bm_url b = u) bs') = 1"
    using cnt filter_url_distinct[of bs u] by (simp add: bookmarks_inv_def)
  from a1 g1 a2 cnt d1 d2 bs'_def show ?thesis by blast
qed

theorem addBookmark_twice_witness:
  "getBookmarks (writeProfile ''bookmarks'' (JArr [Bookmark_json bookmark0]) fresh)
     = JArr (map Bookmark_json [bookmark0])
   \<and> bookmarks_inv [bookmark0]
   \<and> (\<exists>bs' s1.
         addBookmark ''https://b.example'' ''B'' 2
             (writeProfile ''bookmarks'' (JArr [Bookmark_json bookmark0]) fresh)
           = Inr (JArr (map Bookmark_json bs'), s1)
       \<and> addBookmark ''https://b.example'' ''B again'' 3 s1 = Inr (JArr (map Bookmark_json bs'), s1)
       \<and> bs' = [bookmark0, \<lparr> bm_url = ''https://b.example'', bm_title = ''B'', addedAt = 2 \<rparr>]
       \<and> length (filter (\<lambda>b. bm_url b = ''https://b.example'') bs') = 1)"
proof -
  have g: "getBookmarks (writeProfile ''bookmarks'' (JArr [Bookmark_json bookmark0]) fresh)
             = JArr (map Bookmark_json [bookmark0])"
    by (simp add: getBookmarks_writeProfile)
  have i: "bookmarks_inv [bookmark0]" by (simp add: bookmarks_inv_def)
  from addBookmark_twice[OF g, of "''https://b.example''" "''B''" 2 "''B again''" 3] i
  show ?thesis using g by (auto simp: bookmark0_def)
qed

text \<open>
  Claim C5. For every history (any stored array), adding 1001 entries with
  \<^verbatim>\<open>addHistoryEntry\<close> succeeds and \<^verbatim>\<open>getHistory\<close> then returns exactly 1000 entries: the
  1000 most recently added, newest first, so the first one is the entry added last. What
  the cap discards is the tail of the newest-first log: the first of the 1001 added
  entries and everything the history held before.
\<close>

theorem history_cap:
  assumes "getHistory s = JArr h" and "length es = 1001"
  shows "\<exists>s' r. addHistoryEntries es s = Inr s' \<and> getHistory s' = JArr r
           \<and> length r = 1000
           \<and> hd r = HistoryEntry_json (last es)
           \<and> r = map HistoryEntry_json (rev (tl es))
           \<and> r = take 1000 (map HistoryEntry_json (rev es) @ h)"
proof -
  from assms(2) have ne: "es \<noteq> []" by auto
  from addHistoryEntries_array[OF assms(1), of es] ne obtain s' where
    run: "addHistoryEntries es s = Inr s'" and
    res: "getHistory s' = JArr (take 1000 (map HistoryEntry_json (rev es) @ h))"
    by auto
  define r where "r = take 1000 (map HistoryEntry_json (rev es) @ h)"
  have "take 1000 (rev es) = rev (drop 1 es)"
    using assms(2) by (simp add: take_rev)
  then have r_eq: "r = map HistoryEntry_json (rev (tl es))"
    using assms(2) by (simp add: r_def take_map drop_Suc)
  have len: "length r = 1000" using assms(2) by (simp add: r_eq)
  have tl_ne: "tl es \<noteq> []" using assms(2) by (cases es) auto
  have "hd r = HistoryEntry_json (last (tl es))"
    using tl_ne by (simp add: r_eq hd_map hd_rev)
  also have "last (tl es) = last es" using tl_ne by (simp add: last_tl)
  finally have hd: "hd r = HistoryEntry_json (last es)" .
  have res': "getHistory s' = JArr r" by (simp only: res r_def)
  from run res' len hd r_eq r_def show ?thesis by blast
qed

theorem history_cap_witness:
  "getHistory fresh = JArr [] \<and> length entries1001 = 1001
   \<and> (\<exists>s' r. addHistoryEntries entries1001 fresh = Inr s' \<and> getHistory s' = JArr r
         \<and> length r = 1000
         \<and> hd r = HistoryEntry_json \<lparr> he_url = ''https://a.example'', he_title = ''A'', visitedAt = 1000 \<rparr>)"
proof -
  have g: "getHistory fresh = JArr []"
    by (simp add: getHistory_def readProfile_def fresh_def)
  have l: "length entries1001 = 1001" by (simp add: entries1001_def)
  have "last entries1001 = \<lparr> he_url = ''https://a.example'', he_title = ''A'', visitedAt = 1000 \<rparr>"
    by (simp add: entries1001_def last_map)
  with history_cap[OF g l] g l show ?thesis by auto
qed

text \<open>
  Claim C6. For every download list and every id, two calls of \<^verbatim>\<open>saveDownload\<close> with that
  id succeed; each replaces the first entry with the id where there is one and puts the
  item in front otherwise, and then keeps the first 100 entries, so the list has at most
  100 entries afterwards. When the list satisfies the data model (unique ids, at most 100
  entries), exactly one entry with the id is left, the item of the second call, so with
  the latest \<^verbatim>\<open>receivedBytes\<close>; it is at the index \<open>k\<close> it had after the first call: the
  index of the entry it replaced when the id was already listed, the front when the id
  was new; and the list still satisfies the data model.
\<close>

theorem saveDownload_twice:
  assumes "getDownloads s = JArr (map DownloadItem_json ds)"
    and "ident item2 = ident item1"
  shows "\<exists>s1 s2 ds1 ds2.
           saveDownload item1 s = Inr s1 \<and> getDownloads s1 = JArr (map DownloadItem_json ds1)
         \<and> saveDownload item2 s1 = Inr s2 \<and> getDownloads s2 = JArr (map DownloadItem_json ds2)
         \<and> ds1 = take 100 (case firstIndex (\<lambda>d. ident d = ident item1) ds of
                              Some idx \<Rightarrow> ds[idx := item1] | None \<Rightarrow> item1 # ds)
         \<and> ds2 = take 100 (case firstIndex (\<lambda>d. ident d = ident item2) ds1 of
                              Some idx \<Rightarrow> ds1[idx := item2] | None \<Rightarrow> item2 # ds1)
         \<and> length ds1 \<le> 100 \<and> length ds2 \<le> 100
         \<and> (downloads_inv ds \<longrightarrow>
               (\<exists>k < length ds2.
                   ds1 ! k = item1 \<and> ds2 = ds1[k := item2] \<and> ds2 ! k = item2
                 \<and> filter (\<lambda>d. ident d = ident item1) ds2 = [item2]
                 \<and> (if ident item1 \<in> set (map ident ds)
                     then ident (ds ! k) = ident item1 \<and> ds1 = ds[k := item1]
                     else k = 0 \<and> ds1 = take 100 (item1 # ds))
                 \<and> downloads_inv ds2))"
proof -
  define ds1 where "ds1 = saveDownload_list item1 ds"
  define ds2 where "ds2 = saveDownload_list item2 ds1"
  define s1 where "s1 = writeProfile ''downloads'' (JArr (map DownloadItem_json ds1)) s"
  define s2 where "s2 = writeProfile ''downloads'' (JArr (map DownloadItem_json ds2)) s1"
  have a1: "saveDownload item1 s = Inr s1"
    using saveDownload_typed[OF assms(1), of item1] by (simp add: s1_def ds1_def)
  have g1: "getDownloads s1 = JArr (map DownloadItem_json ds1)"
    by (simp add: s1_def getDownloads_writeProfile)
  have a2: "saveDownload item2 s1 = Inr s2"
    using saveDownload_typed[OF g1, of item2] by (simp add: s2_def ds2_def)
  have g2: "getDownloads s2 = JArr (map DownloadItem_json ds2)"
    by (simp add: s2_def getDownloads_writeProfile)
  have e1: "ds1 = take 100 (case firstIndex (\<lambda>d. ident d = ident item1) ds of
                              Some idx \<Rightarrow> ds[idx := item1] | None \<Rightarrow> item1 # ds)"
    by (simp only: ds1_def saveDownload_list_def)
  have e2: "ds2 = take 100 (case firstIndex (\<lambda>d. ident d = ident item2) ds1 of
                              Some idx \<Rightarrow> ds1[idx := item2] | None \<Rightarrow> item2 # ds1)"
    by (simp only: ds2_def saveDownload_list_def)
  have len: "length ds1 \<le> 100" "length ds2 \<le> 100"
    by (simp_all add: ds1_def ds2_def saveDownload_list_length)
  have inv: "\<exists>k < length ds2.
                   ds1 ! k = item1 \<and> ds2 = ds1[k := item2] \<and> ds2 ! k = item2
                 \<and> filter (\<lambda>d. ident d = ident item1) ds2 = [item2]
                 \<and> (if ident item1 \<in> set (map ident ds)
                     then ident (ds ! k) = ident item1 \<and> ds1 = ds[k := item1]
                     else k = 0 \<and> ds1 = take 100 (item1 # ds))
                 \<and> downloads_inv ds2"
    if "downloads_inv ds"
    using saveDownload_list_twice[OF that assms(2)] unfolding ds1_def ds2_def by blast
  from a1 g1 a2 g2 e1 e2 len inv show ?thesis by blast
qed

theorem saveDownload_twice_witness:
  "getDownloads (writeProfile ''downloads'' (JArr [DownloadItem_json download0]) fresh)
     = JArr (map DownloadItem_json [download0])
   \<and> downloads_inv [download0]
   \<and> ident (download0\<lparr> receivedBytes := 10 \<rparr>) = ident (download0\<lparr> receivedBytes := 5 \<rparr>)
   \<and> (\<exists>s1 s2 ds2.
         saveDownload (download0\<lparr> receivedBytes := 5 \<rparr>)
             (writeProfile ''downloads'' (JArr [DownloadItem_json download0]) fresh) = Inr s1
       \<and> saveDownload (download0\<lparr> receivedBytes := 10 \<rparr>) s1 = Inr s2
       \<and> getDownloads s2 = JArr (map DownloadItem_json ds2)
       \<and> filter (\<lambda>d. ident d = ident download0) ds2 = [download0\<lparr> receivedBytes := 10 \<rparr>])"
proof -
  have g: "getDownloads (writeProfile ''downloads'' (JArr [DownloadItem_json download0]) fresh)
             = JArr (map DownloadItem_json [download0])"
    by (simp add: getDownloads_writeProfile)
  have i: "downloads_inv [download0]" by (simp add: downloads_inv_def)
  have e: "ident (download0\<lparr> receivedBytes := 10 \<rparr>) = ident (download0\<lparr> receivedBytes := 5 \<rparr>)"
    by simp
  from saveDownload_twice[OF g e] i obtain s1 s2 ds2 where
    "saveDownload (download0\<lparr> receivedBytes := 5 \<rparr>)
       (writeProfile ''downloads'' (JArr [DownloadItem_json download0]) fresh) = Inr s1"
    "saveDownload (download0\<lparr> receivedBytes := 10 \<rparr>) s1 = Inr s2"
    "getDownloads s2 = JArr (map DownloadItem_json ds2)"
    "filter (\<lambda>d. ident d = ident (download0\<lparr> receivedBytes := 5 \<rparr>)) ds2
       = [download0\<lparr> receivedBytes := 10 \<rparr>]"
    by blast
  then have "\<exists>s1 s2 ds2.
         saveDownload (download0\<lparr> receivedBytes := 5 \<rparr>)
             (writeProfile ''downloads'' (JArr [DownloadItem_json download0]) fresh) = Inr s1
       \<and> saveDownload (download0\<lparr> receivedBytes := 10 \<rparr>) s1 = Inr s2
       \<and> getDownloads s2 = JArr (map DownloadItem_json ds2)
       \<and> filter (\<lambda>d. ident d = ident download0) ds2 = [download0\<lparr> receivedBytes := 10 \<rparr>]"
    by (intro exI[of _ s1] exI[of _ s2] exI[of _ ds2]) simp
  with g i e show ?thesis by blast
qed

text \<open>
  Claim C9. For every profile list, as \<^verbatim>\<open>getProfiles\<close> returns it, and every id that no
  profile of the list has, \<^verbatim>\<open>switchProfile\<close> returns \<^verbatim>\<open>null\<close> and leaves the active profile
  id as it was; the profile documents are untouched, so every later read or write of a
  profile document goes to the profile that was active before.
\<close>

theorem switchProfile_unknown:
  assumes "getProfiles now s = Inr (JArr (map Profile_json ps), s1)"
    and "pid \<notin> set (map profile_id ps)"
  shows "switchProfile pid now s = Inr (JNull, s1)
       \<and> activeProfileId s1 = activeProfileId s
       \<and> profileDocs s1 = profileDocs s
       \<and> (\<forall>name fallback. readProfile name fallback s1 = readProfile name fallback s)"
proof -
  have "switchProfile pid now s = Inr (JNull, s1)"
    using assms by (simp add: switchProfile_def find_id_Profiles_None)
  moreover from getProfiles_keeps[OF assms(1)]
  have "activeProfileId s1 = activeProfileId s" "profileDocs s1 = profileDocs s" by auto
  ultimately show ?thesis by (simp add: readProfile_def)
qed

theorem switchProfile_unknown_witness:
  "getProfiles 5 fresh
     = Inr (JArr (map Profile_json [defaultProfile 5]),
            writeGlobal ''profiles'' (JArr [Profile_json (defaultProfile 5)]) fresh)
   \<and> ''ghost'' \<notin> set (map profile_id [defaultProfile 5])
   \<and> switchProfile ''ghost'' 5 fresh
       = Inr (JNull, writeGlobal ''profiles'' (JArr [Profile_json (defaultProfile 5)]) fresh)
   \<and> activeProfileId (writeGlobal ''profiles'' (JArr [Profile_json (defaultProfile 5)]) fresh)
       = activeProfileId fresh"
proof -
  have g: "getProfiles 5 fresh
     = Inr (JArr (map Profile_json [defaultProfile 5]),
            writeGlobal ''profiles'' (JArr [Profile_json (defaultProfile 5)]) fresh)"
    by (simp add: getProfiles_def readGlobal_def fresh_def mkProfile_def defaultProfile_def Let_def)
  have n: "''ghost'' \<notin> set (map profile_id [defaultProfile 5])"
    by (simp add: defaultProfile_def)
  from switchProfile_unknown[OF g n] g n show ?thesis by simp
qed

text \<open>
  Claim C4. In every state that the profile operations reach from a fresh data root,
  \<^verbatim>\<open>getProfiles\<close> returns a list with exactly one profile whose id is \<^verbatim>\<open>"default"\<close>, so no
  sequence of operations removes the default profile. The operations are taken on the
  file system, with every argument they accept: \<^verbatim>\<open>deleteProfile\<close> removes whatever
  directory or file its id resolves to, be it the data directory with the profile
  document in it, and a state left behind by an operation that threw counts as reached.
  \<^verbatim>\<open>deleteProfile("default")\<close> returns that list and does what \<^verbatim>\<open>getProfiles\<close> does: the
  list read afterwards is the same and the active profile id is unchanged.
\<close>

theorem default_profile_kept:
  assumes "reachable d"
  shows "\<exists>ps d1. getProfiles_fs now d = (Inr (JArr ps), d1)
           \<and> length (filter (fieldEq ''id'' ''default'') ps) = 1
           \<and> deleteProfile_fs ''default'' now now1 env d = (Inr (JArr ps), d1)
           \<and> getProfiles_fs now2 d1 = (Inr (JArr ps), d1)
           \<and> activeId d1 = activeId d"
proof -
  obtain ps d1 where g: "getProfiles_fs now d = (Inr (JArr ps), d1)"
      "length (filter (fieldEq ''id'' ''default'') ps) = 1" "activeId d1 = activeId d"
      "\<forall>now'. getProfiles_fs now' d1 = (Inr (JArr ps), d1)"
    using getProfiles_fs_inv[OF reachable_inv[OF assms], of now] by blast
  have "deleteProfile_fs ''default'' now now1 env d = (Inr (JArr ps), d1)"
    using g(1) by (simp add: deleteProfile_fs_def)
  then show ?thesis using g by blast
qed

theorem default_profile_kept_witness:
  "reachable (snd (run_profiles (DeleteProfile ''..'' 3 4 RmCompleted)
               (snd (run_profiles (CreateProfile ''Work'' ''briefcase'' 1 ''17'' ''ab12'' 2) disk0))))
   \<and> (\<exists>ps d1.
         getProfiles_fs 5 (snd (run_profiles (DeleteProfile ''..'' 3 4 RmCompleted)
               (snd (run_profiles (CreateProfile ''Work'' ''briefcase'' 1 ''17'' ''ab12'' 2) disk0))))
           = (Inr (JArr ps), d1)
         \<and> length (filter (fieldEq ''id'' ''default'') ps) = 1
         \<and> deleteProfile_fs ''default'' 5 6 RmCompleted
              (snd (run_profiles (DeleteProfile ''..'' 3 4 RmCompleted)
                 (snd (run_profiles (CreateProfile ''Work'' ''briefcase'' 1 ''17'' ''ab12'' 2) disk0))))
             = (Inr (JArr ps), d1)
         \<and> getProfiles_fs 7 d1 = (Inr (JArr ps), d1))"
proof -
  have r0: "reachable disk0" by (rule reachable.fresh[OF fresh_root_disk0])
  have r: "reachable (snd (run_profiles (DeleteProfile ''..'' 3 4 RmCompleted)
               (snd (run_profiles (CreateProfile ''Work'' ''briefcase'' 1 ''17'' ''ab12'' 2) disk0))))"
    by (intro reachable.step r0)
  from default_profile_kept[OF r, of 5 6 RmCompleted 7] r show ?thesis by blast
qed

text \<open>An id that leads out of the profiles directory: after \<^verbatim>\<open>createProfile\<close>,
  \<^verbatim>\<open>deleteProfile("..")\<close> removes the data directory, the profile document included, and
  returns a list that holds a new default profile and nothing else.\<close>

lemma deleteProfile_parent_directory:
  "fst (getProfiles_fs 3 (snd (createProfile_fs ''Work'' ''briefcase'' 1 ''17'' ''ab12'' 2 disk0)))
     = Inr (JArr [mkProfile ''default'' ''Default'' ''person'' 1 True,
                  mkProfile ''profile-17-ab12'' ''Work'' ''briefcase'' 2 False])
   \<and> fst (deleteProfile_fs ''..'' 3 4 RmCompleted
            (snd (createProfile_fs ''Work'' ''briefcase'' 1 ''17'' ''ab12'' 2 disk0)))
     = Inr (JArr [mkProfile ''default'' ''Default'' ''person'' 4 True])"
  by code_simp

text \<open>
  Claim C8, as amended. For every on-disk settings document, \<^verbatim>\<open>getSettings\<close> returns an
  object whose fields are those of the defaults overridden by every own property of the
  document: \<^verbatim>\<open>searchEngine\<close>, \<^verbatim>\<open>adBlockEnabled\<close> and \<^verbatim>\<open>restoreSession\<close> take the on-disk value
  when present and the fixed default otherwise, and every other field of the document is
  carried into the result with its value. A missing or unparsable document gives exactly
  the defaults.
\<close>

theorem getSettings_merge:
  "\<exists>props. getSettings s = JObj props \<and> distinct (map fst props)
     \<and> (\<forall>k. map_of props k =
              (case map_of (rev (ownProps (readProfile ''settings'' (JObj []) s))) k of
                 Some v \<Rightarrow> Some v
               | None \<Rightarrow> map_of defaultSettings k))
     \<and> (profileDocs s (activeProfileId s) ''settings'' \<in> {None, Some Unparsable}
          \<longrightarrow> props = defaultSettings)
     \<and> (\<forall>kvs. profileDocs s (activeProfileId s) ''settings'' = Some (Parses (JObj kvs)) \<longrightarrow>
          (\<forall>k. map_of props k =
                 (case map_of kvs k of Some v \<Rightarrow> Some v | None \<Rightarrow> map_of defaultSettings k)))"
proof -
  let ?doc = "readProfile ''settings'' (JObj []) s"
  let ?props = "spreadOver defaultSettings ?doc"
  have "getSettings s = JObj ?props" by (simp add: getSettings_def spread_defaults)
  moreover have "distinct (map fst ?props)"
    by (rule spreadOver_distinct) (simp add: defaultSettings_def)
  moreover have "map_of ?props k =
              (case map_of (rev (ownProps ?doc)) k of
                 Some v \<Rightarrow> Some v
               | None \<Rightarrow> map_of defaultSettings k)" for k
    by (simp add: spreadOver_map_of map_add_def)
  moreover have "?props = defaultSettings"
    if "profileDocs s (activeProfileId s) ''settings'' \<in> {None, Some Unparsable}"
    using that by (auto simp: readProfile_def spreadOver_def)
  moreover have "map_of ?props k =
                 (case map_of kvs k of Some v \<Rightarrow> Some v | None \<Rightarrow> map_of defaultSettings k)"
    if "profileDocs s (activeProfileId s) ''settings'' = Some (Parses (JObj kvs))" for kvs k
    using that by (simp add: readProfile_def spreadOver_object map_add_def)
  ultimately show ?thesis by blast
qed

theorem getSettings_merge_witness:
  "profileDocs settings_with_theme (activeProfileId settings_with_theme) ''settings''
     = Some (Parses (JObj [(''adBlockEnabled'', JBool False), (''theme'', JStr ''dark'')]))
   \<and> profileDocs fresh (activeProfileId fresh) ''settings'' \<in> {None, Some Unparsable}
   \<and> getSettings fresh = JObj defaultSettings
   \<and> (\<exists>props. getSettings settings_with_theme = JObj props
         \<and> map_of props ''searchEngine'' = Some (JStr ''duckduckgo'')
         \<and> map_of props ''adBlockEnabled'' = Some (JBool False)
         \<and> map_of props ''restoreSession'' = Some (JBool True)
         \<and> map_of props ''theme'' = Some (JStr ''dark''))"
proof -
  have d: "profileDocs settings_with_theme (activeProfileId settings_with_theme) ''settings''
     = Some (Parses (JObj [(''adBlockEnabled'', JBool False), (''theme'', JStr ''dark'')]))"
    by (simp add: settings_with_theme_def writeProfile_def)
  have f: "profileDocs fresh (activeProfileId fresh) ''settings'' \<in> {None, Some Unparsable}"
    by (simp add: fresh_def)
  from getSettings_merge[of fresh] f have "getSettings fresh = JObj defaultSettings" by auto
  moreover from getSettings_merge[of settings_with_theme] d
  have "\<exists>props. getSettings settings_with_theme = JObj props
         \<and> map_of props ''searchEngine'' = Some (JStr ''duckduckgo'')
         \<and> map_of props ''adBlockEnabled'' = Some (JBool False)
         \<and> map_of props ''restoreSession'' = Some (JBool True)
         \<and> map_of props ''theme'' = Some (JStr ''dark'')"
    by (auto simp: defaultSettings_def)
  ultimately show ?thesis using d f by blast
qed

text \<open>The claim as it stands fails: a field of the on-disk document that is none of the
  three is not ignored, it is part of what \<^verbatim>\<open>getSettings\<close> returns.\<close>

theorem getSettings_unknown_field_counterexample:
  "getSettings (writeProfile ''settings'' (JObj [(''theme'', JStr ''dark'')]) fresh)
     = JObj [(''searchEngine'', JStr ''duckduckgo''), (''adBlockEnabled'', JBool True),
             (''restoreSession'', JBool True), (''theme'', JStr ''dark'')]"
  by (simp add: getSettings_def readProfile_def writeProfile_def fresh_def
        spreadOver_def defaultSettings_def AList.delete_eq)



text \<open>
  Claim C2. Starting from an empty credential store (the credentials read as the empty
  list) with the key file missing or valid, \<^verbatim>\<open>registerUser("a@b.com", "secret1")\<close> succeeds,
  and \<^verbatim>\<open>loginUser("a@b.com", "secret1")\<close> then succeeds and leaves an AuthState with
  \<^verbatim>\<open>isLoggedIn = true\<close> and \<^verbatim>\<open>email = "a@b.com"\<close>. \<^verbatim>\<open>loginUser("a@b.com", "wrong")\<close>, before or
  after that login, returns the failure result with the message for invalid credentials
  and leaves the whole store, the AuthState included, as it was. The key derivation is a
  parameter; what is asked of it is that the two passwords hash differently under the
  salt drawn at registration.
\<close>

theorem register_then_login:
  assumes empty: "fst (readEncrypted ''credentials'' (JArr []) (rand_key r1) s) = JArr []"
    and key: "keyFile s \<noteq> Some InvalidKey"
    and kdf: "kdf ''wrong'' (rand_salt r1) \<noteq> kdf ''secret1'' (rand_salt r1)"
  shows "\<exists>s1 s2.
           registerUser kdf ''a@b.com'' ''secret1'' r1 s = Inr (mkResult True None, s1)
         \<and> loginUser kdf ''a@b.com'' ''secret1'' r2 s1 = Inr (mkResult True None, s2)
         \<and> getAuthState fk s2
             = (mkAuthState True (JStr ''a@b.com'') (JStr (rand_token r2)) (JStr (activeProfileId s)), s2)
         \<and> loginUser kdf ''a@b.com'' ''wrong'' r3 s2
             = Inr (mkResult False (Some ''Invalid email or password''), s2)
         \<and> loginUser kdf ''a@b.com'' ''wrong'' r3 s1
             = Inr (mkResult False (Some ''Invalid email or password''), s1)"
proof -
  define k where "k = appKey (rand_key r1) s"
  define cred where "cred = mkCredentials ''a@b.com'' (kdf ''secret1'' (rand_salt r1)) (rand_salt r1) (clock r1)"
  define auth where "auth = (\<lambda>r::entropy. mkAuthState True (JStr ''a@b.com'') (JStr (rand_token r)) (JStr (activeProfileId s)))"
  define s1 where "s1 = s\<lparr> keyFile := Some (ValidKey k),
      encFiles := (encFiles s)(''credentials'' \<mapsto> Sealed k (Parses (JArr [cred])),
                               ''auth'' \<mapsto> Sealed k (Parses (auth r1))) \<rparr>"
  define s2 where "s2 = s1\<lparr> encFiles := (encFiles s1)(''auth'' \<mapsto> Sealed k (Parses (auth r2))) \<rparr>"
  obtain s0 where rd: "readEncrypted ''credentials'' (JArr []) (rand_key r1) s = (JArr [], s0)"
    using empty by (cases "readEncrypted ''credentials'' (JArr []) (rand_key r1) s") simp
  from readEncrypted_state[OF key, of "''credentials''" "JArr []" "rand_key r1"] rd
  have s0: "s0 = s \<or> (keyFile s = None \<and> s0 = s\<lparr> keyFile := Some (ValidKey (rand_key r1)) \<rparr>)"
    by simp
  then have key0: "keyFile s0 \<noteq> Some InvalidKey" and k0: "appKey (rand_key r1) s0 = k"
    and act0: "activeProfileId s0 = activeProfileId s" and enc0: "encFiles s0 = encFiles s"
    using key by (auto simp: appKey_def k_def)
  let ?sa = "s0\<lparr> keyFile := Some (ValidKey k),
                 encFiles := (encFiles s0)(''credentials'' \<mapsto> Sealed k (Parses (JArr [cred]))) \<rparr>"
  have w1: "writeEncrypted ''credentials'' (JArr [cred]) (rand_key r1) s0 = Inr ?sa"
    using writeEncrypted_valid[OF key0] k0 by simp
  have ka: "keyFile ?sa \<noteq> Some InvalidKey" "appKey (rand_key r1) ?sa = k" by (simp_all add: appKey_def)
  have w2: "saveAuthState (auth r1) (rand_key r1) ?sa = Inr s1"
    using writeEncrypted_valid[OF ka(1), of "''auth''" "auth r1" "rand_key r1"] ka(2) s0
    by (auto simp: saveAuthState_def s1_def fun_upd_twist)
  have reg: "registerUser kdf ''a@b.com'' ''secret1'' r1 s = Inr (mkResult True None, s1)"
    using rd w1 w2 act0 by (simp add: registerUser_def Let_def cred_def auth_def)
  have key1: "keyFile s1 = Some (ValidKey k)" by (simp add: s1_def)
  have cr1: "encFiles s1 ''credentials'' = Some (Sealed k (Parses (JArr [cred])))" by (simp add: s1_def)
  have rd1: "readEncrypted ''credentials'' (JArr []) fk' s1 = (JArr [cred], s1)" for fk'
    by (rule readEncrypted_sealed[OF key1 cr1])
  have fnd: "find_js (fieldIs ''email'' ''a@b.com'') [cred] = Inr (Some cred)"
    by (simp add: cred_def mkCredentials_def fieldIs_def)
  have salt: "getProp cred ''salt'' = Inr (Some (JStr (rand_salt r1)))"
    and hash: "getProp cred ''passwordHash'' = Inr (Some (JStr (kdf ''secret1'' (rand_salt r1))))"
    by (simp_all add: cred_def mkCredentials_def)
  have w3: "saveAuthState (auth r2) (rand_key r2) s1 = Inr s2"
    using writeEncrypted_valid[of s1 "''auth''" "auth r2" "rand_key r2"] key1
    by (simp add: saveAuthState_def s2_def appKey_def)
  have act1: "activeProfileId s1 = activeProfileId s" by (simp add: s1_def)
  have login: "loginUser kdf ''a@b.com'' ''secret1'' r2 s1 = Inr (mkResult True None, s2)"
    using rd1 fnd salt hash w3 act1 by (simp add: loginUser_def auth_def)
  have key2: "keyFile s2 = Some (ValidKey k)" by (simp add: s2_def s1_def)
  have cr2: "encFiles s2 ''credentials'' = Some (Sealed k (Parses (JArr [cred])))" by (simp add: s2_def s1_def)
  have au2: "encFiles s2 ''auth'' = Some (Sealed k (Parses (auth r2)))" by (simp add: s2_def)
  have ga: "getAuthState fk s2 = (auth r2, s2)"
    unfolding getAuthState_def by (rule readEncrypted_sealed[OF key2 au2])
  have rd2: "readEncrypted ''credentials'' (JArr []) fk' s2 = (JArr [cred], s2)" for fk'
    by (rule readEncrypted_sealed[OF key2 cr2])
  have bad2: "loginUser kdf ''a@b.com'' ''wrong'' r3 s2
             = Inr (mkResult False (Some ''Invalid email or password''), s2)"
    using rd2 fnd salt hash kdf by (simp add: loginUser_def)
  have bad1: "loginUser kdf ''a@b.com'' ''wrong'' r3 s1
             = Inr (mkResult False (Some ''Invalid email or password''), s1)"
    using rd1 fnd salt hash kdf by (simp add: loginUser_def)
  from reg login ga bad2 bad1 show ?thesis by (auto simp: auth_def)
qed

theorem register_then_login_witness:
  "fst (readEncrypted ''credentials'' (JArr []) (rand_key entropy0) fresh) = JArr []
   \<and> keyFile fresh \<noteq> Some InvalidKey
   \<and> concat_kdf ''wrong'' (rand_salt entropy0) \<noteq> concat_kdf ''secret1'' (rand_salt entropy0)
   \<and> (\<exists>s1 s2.
         registerUser concat_kdf ''a@b.com'' ''secret1'' entropy0 fresh = Inr (mkResult True None, s1)
       \<and> loginUser concat_kdf ''a@b.com'' ''secret1'' entropy0 s1 = Inr (mkResult True None, s2)
       \<and> fst (getAuthState [] s2)
           = mkAuthState True (JStr ''a@b.com'') (JStr ''a1b2'') (JStr ''default'')
       \<and> loginUser concat_kdf ''a@b.com'' ''wrong'' entropy0 s2
           = Inr (mkResult False (Some ''Invalid email or password''), s2))"
proof -
  have e: "fst (readEncrypted ''credentials'' (JArr []) (rand_key entropy0) fresh) = JArr []"
    by (simp add: readEncrypted_def fresh_def)
  have k: "keyFile fresh \<noteq> Some InvalidKey" by (simp add: fresh_def)
  have h: "concat_kdf ''wrong'' (rand_salt entropy0) \<noteq> concat_kdf ''secret1'' (rand_salt entropy0)"
    by (simp add: concat_kdf_def)
  from register_then_login[where kdf = concat_kdf and s = fresh and ?r1.0 = entropy0
      and ?r2.0 = entropy0 and ?r3.0 = entropy0 and fk = "[]", OF e k h] e k h
  show ?thesis by (auto simp: entropy0_def fresh_def)
qed

text \<open>
  Claim C3, as amended. Every public operation of the bookmark, history, settings,
  session, download, profile and auth stores, in either module, returns normally, with
  data, a fallback value or an explicit result, for every input and every prior state of
  the disk that is usable and well-shaped, provided the removal \<^verbatim>\<open>deleteProfile\<close> asks for
  is settled. Usable: the data directory and the directory the active profile id resolves
  to can be created or exist, no file lies on the way to them, no directory lies where one
  of their documents goes, the profile directory lies inside the user-data directory, and
  the key file is missing or holds a key of the right length. Well-shaped: each array
  document in reach (profiles, bookmarks, history, downloads, credentials) is missing,
  unparsable, or an array without \<^verbatim>\<open>null\<close>, with string \<^verbatim>\<open>url\<close> and \<^verbatim>\<open>title\<close> in the history
  and a string \<^verbatim>\<open>salt\<close> wherever the credentials have a string \<^verbatim>\<open>email\<close>. Settled: the
  directory to remove lies inside the user-data directory, or the file system carries the
  removal out. Missing and unparsable documents are among these states: the instance
  below has a bookmarks document that does not parse.
\<close>

theorem api_safe:
  assumes "usable d" and "shaped d" and "removal_settled opn d"
  shows "\<exists>v d'. api_run kdf lc opn d = (Inr v, d')"
proof -
  have t: "treeLike d" and cb: "canHold (baseDataDir d) baseFiles d"
    and ca: "canHold (activeDir d) profileFiles d" and k: "keyReady d"
    using assms(1) by (simp_all add: usable_def)
  have m: "''profiles.json'' \<in> set baseFiles" by (simp add: baseFiles_def)
  have cs: "\<forall>key v. nodes d (credentialsPath d) = Some (File (EnvelopeText (Sealed key (Parses v))))
            \<and> (nodes d (keyPath d) = None \<or> nodes d (keyPath d) = Some (File (KeyText (ValidKey key))))
          \<longrightarrow> isArrayOf credentialShape v"
    using assms(2) unfolding shaped_def by blast
  note A = auth_fs_safe[OF t cb k cs]
  show ?thesis
  proof (cases opn)
    case (Store x)
    then show ?thesis using run_profile_fs_safe[OF t ca, of lc x] assms(2) by (simp add: shaped_def)
  next
    case GetSettings
    then show ?thesis using settings_fs_safe(1)[OF t ca] by auto
  next
    case (UpdateSettings partial)
    then show ?thesis using settings_fs_safe(2)[OF t ca, of partial] by auto
  next
    case (Profiles x)
    then show ?thesis using run_profiles_safe[OF t cb m, of x] assms(2,3) by (simp add: shaped_def)
  next
    case (GetAuthState fk)
    then show ?thesis using A(1)[of fk] by auto
  next
    case (RegisterUser email password r)
    then show ?thesis using A(3)[of kdf email password r] by auto
  next
    case (LoginUser email password r)
    then show ?thesis using A(4)[of kdf email password r] by auto
  next
    case (LogoutUser fk)
    then show ?thesis using A(2)[of fk] by auto
  next
    case GetSSOProviders
    then show ?thesis by simp
  next
    case (Storage x)
    then show ?thesis using run_storage_fs_safe[OF t cb, of lc x] assms(2) by (simp add: shaped_def)
  next
    case StorageGetSettings
    then show ?thesis using storage_settings_fs_safe(1)[OF t cb] by auto
  next
    case (StorageUpdateSettings partial)
    then show ?thesis using storage_settings_fs_safe(2)[OF t cb, of partial] by auto
  qed
qed

theorem api_safe_witness:
  "usable disk_corrupt \<and> shaped disk_corrupt
   \<and> removal_settled (Profiles (DeleteProfile ''..'' 1 2 (RmFailed (\<lambda>p. False)))) disk_corrupt
   \<and> (\<exists>v d'. api_run concat_kdf (\<lambda>x. x) (Profiles (DeleteProfile ''..'' 1 2 (RmFailed (\<lambda>p. False))))
                  disk_corrupt = (Inr v, d'))
   \<and> (\<exists>v d'. api_run concat_kdf (\<lambda>x. x) (Store (AddBookmark ''https://a.example'' ''A'' 1))
                  disk_corrupt = (Inr v, d'))
   \<and> fst (api_run concat_kdf (\<lambda>x. x) (Store GetBookmarks) disk_corrupt) = Inr (Some (JArr []))"
proof -
  note u = usable_disk_corrupt and s = shaped_disk_corrupt
  have r: "removal_settled (Profiles (DeleteProfile ''..'' 1 2 (RmFailed (\<lambda>p. False)))) disk_corrupt"
    by (simp add: disk_corrupt_eq disk0_def home_def baseDataDir_def joinPath_def)
  have a: "removal_settled (Store (AddBookmark ''https://a.example'' ''A'' 1)) disk_corrupt" by simp
  have g: "fst (api_run concat_kdf (\<lambda>x. x) (Store GetBookmarks) disk_corrupt) = Inr (Some (JArr []))"
    by code_simp
  from api_safe[OF u s r] api_safe[OF u s a] u s r g show ?thesis by blast
qed

text \<open>The claim as it stands fails on a document that parses but is not of the declared
  shape: with \<^verbatim>\<open>null\<close> in the bookmarks document, \<^verbatim>\<open>addBookmark\<close> throws a \<^verbatim>\<open>TypeError\<close>.\<close>

theorem addBookmark_null_document_counterexample:
  "fst (api_run concat_kdf (\<lambda>x. x) (Store (AddBookmark ''https://a.example'' ''A'' 1))
          disk_null_bookmarks) = Inl TypeError"
  by code_simp

text \<open>Each of the other conditions is needed as well. On a key file that does not hold
  32 bytes, reads fall back, but every operation that writes an encrypted file throws.\<close>

lemma logoutUser_short_key:
  "fst (logoutUser_fs [] disk_short_key) = Inl InvalidKeyLength"
  by code_simp

text \<open>A profile id is spliced into the path as it is. When the profile document lists an
  id that resolves to a file, \<^verbatim>\<open>switchProfile\<close> accepts it, and from then on every write
  of a profile document throws: \<^verbatim>\<open>ensureDir\<close> finds the path present, and the write finds
  a file where it needs a directory.\<close>

lemma addBookmark_profile_path_is_file:
  "fst (switchProfile_fs ''../profiles.json'' 2 disk_listed_path)
     = Inr (mkProfile ''../profiles.json'' ''Odd'' ''person'' 1 False)
   \<and> fst (addBookmark_fs ''https://a.example'' ''A'' 3
            (snd (switchProfile_fs ''../profiles.json'' 2 disk_listed_path))) = Inl FsError"
  by code_simp

text \<open>With enough \<^verbatim>\<open>..\<close> the id of \<^verbatim>\<open>deleteProfile\<close> names a directory above the user-data
  directory; when the file system refuses to remove it, the exception reaches the
  caller.\<close>

lemma deleteProfile_outside_refused:
  "fst (deleteProfile_fs ''../../../../..'' 1 2 (RmFailed (\<lambda>p. False)) disk0) = Inl FsError"
  by code_simp

end
